theory Spec2Isabelle
  imports Complex_Main "HOL-Library.AList" "HOL-Library.Multiset"
begin

section \<open>The translation servlet of apertium-apy (servlet.py)\<close>

text \<open>
  This theory embeds the pipeline pool, the statistics and the request path of
  \<^verbatim>\<open>TranslateHandler\<close> and the start-up check \<^verbatim>\<open>sanity_check\<close> of
  \<^verbatim>\<open>servlet.py\<close>. Python exceptions are values of \<open>error\<close>; the class attributes
  of \<^verbatim>\<open>BaseHandler\<close> that the handlers mutate are the fields of the record \<open>handler\<close>,
  passed in and returned. Results of calls into modules that are not part of
  \<^verbatim>\<open>servlet.py\<close> (\<^verbatim>\<open>translation\<close>, \<^verbatim>\<open>util\<close>, the clock) are arguments of the
  functions that make the call.
\<close>

subsection \<open>Data\<close>

text \<open>
  A \<^verbatim>\<open>translation.Pipeline\<close> object. The servlet reads three counters of it. Python
  compares and hashes these objects by identity, which is the field \<open>pid\<close>; the wall
  clock of \<^verbatim>\<open>time.time()\<close> is a real number of seconds.
\<close>

record pipeline =
  pid :: nat
  users :: int
  useCount :: int
  lastUsage :: real

type_synonym pair = "string \<times> string"

text \<open>A \<^verbatim>\<open>datetime\<close> and a \<^verbatim>\<open>timedelta\<close> count microseconds, exactly.\<close>

type_synonym datetime = int
type_synonym timedelta = int

datatype error =
    KeyError
  | IndexError
  | AttributeError
  | MissingArgumentError
  | SystemExit int
  | Raised string

text \<open>
  The class attributes of \<^verbatim>\<open>BaseHandler\<close>, the module's global \<^verbatim>\<open>missingFreqsDb\<close>,
  and what one request handler holds of the response: its status and the body it sent.
  \<open>'m\<close> is the type of \<^verbatim>\<open>translation.ParsedModes\<close> values, which the servlet only stores.
  The dictionary \<^verbatim>\<open>pipelines\<close> is iterated by \<^verbatim>\<open>cleanPairs\<close>, so it is an association
  list in insertion order. \<^verbatim>\<open>STAT_PERIOD_MAX_AGE\<close> is assigned by the main program only
  when the option is not 0, so it may be missing. \<open>missingFreqsDb\<close> holds the calls
  \<^verbatim>\<open>noteUnknown(token, pair)\<close> made so far, when a store is configured.
\<close>

record 'm handler =
  pairs :: "string \<rightharpoonup> string"
  pipelines :: "(pair \<times> pipeline list) list"
  pipelines_holding :: "pipeline list"
  pipeline_cmds :: "pair \<rightharpoonup> 'm"
  stats_useCount :: "pair \<rightharpoonup> int"
  stats_timing :: "(datetime \<times> datetime \<times> int) list"
  max_pipes_per_pair :: int
  min_pipes_per_pair :: int
  max_users_per_pipe :: int
  max_idle_secs :: int
  restart_pipe_after :: int
  scaleMtLogs :: bool
  STAT_PERIOD_MAX_AGE :: "timedelta option"
  missingFreqsDb :: "(string \<times> string) list option"
  status :: int
  sent :: "string option"

subsection \<open>heapq\<close>

text \<open>
  \<^verbatim>\<open>heapq.heappush\<close> and \<^verbatim>\<open>heapq.heapify\<close> of the Python library, on a list, with the
  comparison \<open>lt\<close> of the elements (\<^verbatim>\<open>Pipeline.__lt__\<close>, which is not in
  \<^verbatim>\<open>servlet.py\<close>) as an argument. Both loops keep the item they move outside the list
  and write it back at the end.
\<close>

function siftdown_loop ::
  "('a \<Rightarrow> 'a \<Rightarrow> bool) \<Rightarrow> 'a list \<Rightarrow> nat \<Rightarrow> nat \<Rightarrow> 'a \<Rightarrow> 'a list" where
  "siftdown_loop lt heap startpos pos newitem =
     (if pos > startpos then
        (let parentpos = (pos - 1) div 2;
             parent = heap ! parentpos
         in if lt newitem parent
            then siftdown_loop lt (heap[pos := parent]) startpos parentpos newitem
            else heap[pos := newitem])
      else heap[pos := newitem])"
  by pat_completeness auto
termination
  by (relation "measure (\<lambda>(lt, heap, startpos, pos, newitem). pos)") auto

declare siftdown_loop.simps [simp del]

definition siftdown :: "('a \<Rightarrow> 'a \<Rightarrow> bool) \<Rightarrow> 'a list \<Rightarrow> nat \<Rightarrow> nat \<Rightarrow> 'a list" where
  "siftdown lt heap startpos pos = siftdown_loop lt heap startpos pos (heap ! pos)"

definition heappush :: "('a \<Rightarrow> 'a \<Rightarrow> bool) \<Rightarrow> 'a list \<Rightarrow> 'a \<Rightarrow> 'a list" where
  "heappush lt heap item = siftdown lt (heap @ [item]) 0 (length heap)"

function siftup_loop :: "('a \<Rightarrow> 'a \<Rightarrow> bool) \<Rightarrow> 'a list \<Rightarrow> nat \<Rightarrow> 'a list \<times> nat" where
  "siftup_loop lt heap pos =
     (let endpos = length heap;
          childpos = 2 * pos + 1
      in if childpos < endpos then
           (let rightpos = childpos + 1;
                childpos' = (if rightpos < endpos \<and> \<not> lt (heap ! childpos) (heap ! rightpos)
                             then rightpos else childpos)
            in siftup_loop lt (heap[pos := heap ! childpos']) childpos')
         else (heap, pos))"
  by pat_completeness auto
termination
  by (relation "measure (\<lambda>(lt, heap, pos). length heap - pos)") auto

declare siftup_loop.simps [simp del]

definition siftup :: "('a \<Rightarrow> 'a \<Rightarrow> bool) \<Rightarrow> 'a list \<Rightarrow> nat \<Rightarrow> 'a list" where
  "siftup lt heap pos =
     (let newitem = heap ! pos;
          (heap', pos') = siftup_loop lt heap pos
      in siftdown lt (heap'[pos' := newitem]) pos pos')"

definition heapify :: "('a \<Rightarrow> 'a \<Rightarrow> bool) \<Rightarrow> 'a list \<Rightarrow> 'a list" where
  "heapify lt x = fold (\<lambda>i h. siftup lt h i) (rev [0 ..< length x div 2]) x"

subsection \<open>Eviction: cleanable and cleanPairs\<close>

text \<open>
  \<^verbatim>\<open>cleanable(i, pair, pipe)\<close>; \<open>now\<close> is what \<^verbatim>\<open>time.time()\<close> returns when the
  second test reads it.
\<close>

definition cleanable :: "'m handler \<Rightarrow> real \<Rightarrow> nat \<Rightarrow> pair \<Rightarrow> pipeline \<Rightarrow> bool" where
  "cleanable st now i pair pipe =
     (if useCount pipe > restart_pipe_after st then True
      else if int i \<ge> min_pipes_per_pair st \<and> max_idle_secs st \<noteq> 0
              \<and> now - lastUsage pipe > real_of_int (max_idle_secs st) then True
      else False)"

text \<open>
  The set \<^verbatim>\<open>to_clean\<close> of one pool, as the list of its members in pool order
  (Python does not fix the order in which a set is iterated). \<open>clock i\<close> is the time
  read while pipe \<open>i\<close> of the pool is examined.
\<close>

definition to_clean :: "'m handler \<Rightarrow> (nat \<Rightarrow> real) \<Rightarrow> pair \<Rightarrow> pipeline list \<Rightarrow> pipeline list" where
  "to_clean st clock pair pipes =
     remdups (map snd (filter (\<lambda>(i, p). cleanable st (clock i) i pair p) (enumerate 0 pipes)))"

text \<open>Membership in the set is by object identity.\<close>

definition kept :: "pipeline list \<Rightarrow> pipeline list \<Rightarrow> pipeline list" where
  "kept cleaned pipes = filter (\<lambda>p. pid p \<notin> pid ` set cleaned) pipes"

text \<open>
  The \<^verbatim>\<open>for pair in self.pipelines\<close> loop of \<^verbatim>\<open>cleanPairs\<close>: it returns the pools after
  the loop and the holding area extended by every evicted pipe.
\<close>

fun clean_pools ::
  "(pipeline \<Rightarrow> pipeline \<Rightarrow> bool) \<Rightarrow> 'm handler \<Rightarrow> (pair \<Rightarrow> nat \<Rightarrow> real)
     \<Rightarrow> (pair \<times> pipeline list) list \<Rightarrow> pipeline list
     \<Rightarrow> (pair \<times> pipeline list) list \<times> pipeline list" where
  "clean_pools lt st clock [] holding = ([], holding)"
| "clean_pools lt st clock ((pair, pipes) # rest) holding =
     (let cleaned = to_clean st (clock pair) pair pipes;
          pipes' = heapify lt (kept cleaned pipes);
          (rest', holding') = clean_pools lt st clock rest (holding @ cleaned)
      in ((pair, pipes') # rest', holding'))"

definition cleanPairs ::
  "(pipeline \<Rightarrow> pipeline \<Rightarrow> bool) \<Rightarrow> 'm handler \<Rightarrow> (pair \<Rightarrow> nat \<Rightarrow> real) \<Rightarrow> 'm handler" where
  "cleanPairs lt st clock =
     (let (pools, holding) = clean_pools lt st clock (pipelines st) (pipelines_holding st)
      in st\<lparr>pipelines := pools,
            pipelines_holding := filter (\<lambda>p. users p > 0) holding\<rparr>)"

subsection \<open>Starting pipelines: shouldStartPipe and getPipeline\<close>

text \<open>\<^verbatim>\<open>self.pipelines.get(pair, [])\<close>\<close>

definition pool :: "'m handler \<Rightarrow> pair \<Rightarrow> pipeline list" where
  "pool st pair = (case map_of (pipelines st) pair of None \<Rightarrow> [] | Some pipes \<Rightarrow> pipes)"

definition shouldStartPipe :: "'m handler \<Rightarrow> string \<Rightarrow> string \<Rightarrow> bool" where
  "shouldStartPipe st l1 l2 =
     (case pool st (l1, l2) of
        [] \<Rightarrow> True
      | min_p # _ \<Rightarrow>
          (if int (length (pool st (l1, l2))) < max_pipes_per_pair st
              \<and> users min_p > max_users_per_pipe st
           then True else False))"

text \<open>
  \<^verbatim>\<open>getPipeCmds\<close>; \<open>parseModeFile\<close> is \<^verbatim>\<open>translation.parseModeFile\<close>, which reads
  the mode file and may raise.
\<close>

definition getPipeCmds ::
  "'m handler \<Rightarrow> string \<Rightarrow> string \<Rightarrow> (string \<Rightarrow> error + 'm) \<Rightarrow> (error + 'm) \<times> 'm handler" where
  "getPipeCmds st l1 l2 parseModeFile =
     (case pipeline_cmds st (l1, l2) of
        Some cmds \<Rightarrow> (Inr cmds, st)
      | None \<Rightarrow>
          (case pairs st (l1 @ ''-'' @ l2) of
             None \<Rightarrow> (Inl KeyError, st)
           | Some mode_path \<Rightarrow>
               (case parseModeFile mode_path of
                  Inl e \<Rightarrow> (Inl e, st)
                | Inr cmds \<Rightarrow>
                    (Inr cmds, st\<lparr>pipeline_cmds := (pipeline_cmds st)((l1, l2) \<mapsto> cmds)\<rparr>))))"

text \<open>\<^verbatim>\<open>self.pipelines[pair][0]\<close>\<close>

definition first_pipe :: "'m handler \<Rightarrow> pair \<Rightarrow> error + pipeline" where
  "first_pipe st pair =
     (case map_of (pipelines st) pair of
        None \<Rightarrow> Inl KeyError
      | Some [] \<Rightarrow> Inl IndexError
      | Some (p # _) \<Rightarrow> Inr p)"

text \<open>
  \<^verbatim>\<open>getPipeline\<close>; \<open>makePipeline\<close> is \<^verbatim>\<open>translation.makePipeline\<close>, which spawns
  the processes and returns a new object, or raises. An exception leaves the state as
  it is when it is raised.
\<close>

definition getPipeline ::
  "(pipeline \<Rightarrow> pipeline \<Rightarrow> bool) \<Rightarrow> 'm handler \<Rightarrow> pair \<Rightarrow> (string \<Rightarrow> error + 'm)
     \<Rightarrow> ('m \<Rightarrow> error + pipeline) \<Rightarrow> (error + pipeline) \<times> 'm handler" where
  "getPipeline lt st pair parseModeFile makePipeline =
     (case pair of (l1, l2) \<Rightarrow>
        if shouldStartPipe st l1 l2 then
          (let st1 = (if map_of (pipelines st) pair = None
                      then st\<lparr>pipelines := AList.update pair [] (pipelines st)\<rparr> else st)
           in case getPipeCmds st1 l1 l2 parseModeFile of
                (Inl e, st2) \<Rightarrow> (Inl e, st2)
              | (Inr cmds, st2) \<Rightarrow>
                  (case makePipeline cmds of
                     Inl e \<Rightarrow> (Inl e, st2)
                   | Inr p \<Rightarrow>
                       (case map_of (pipelines st2) pair of
                          None \<Rightarrow> (Inl KeyError, st2)
                        | Some pipes \<Rightarrow>
                            (let st3 = st2\<lparr>pipelines :=
                                    AList.update pair (heappush lt pipes p) (pipelines st2)\<rparr>
                             in (first_pipe st3 pair, st3)))))
        else (first_pipe st pair, st))"

subsection \<open>Statistics: notePairUsage and logAfterTranslation\<close>

definition notePairUsage :: "'m handler \<Rightarrow> pair \<Rightarrow> 'm handler" where
  "notePairUsage st pair =
     st\<lparr>stats_useCount := (stats_useCount st)
           (pair \<mapsto> 1 + (case stats_useCount st pair of None \<Rightarrow> 0 | Some c \<Rightarrow> c))\<rparr>"

text \<open>
  \<^verbatim>\<open>logAfterTranslation(before, length)\<close>. The three readings of \<^verbatim>\<open>datetime.now()\<close>
  are \<open>after\<close>, \<open>now_oldest\<close> (read only when the list is empty) and \<open>now_check\<close>. The
  branch for \<^verbatim>\<open>scaleMtLogs\<close> writes a log line through \<^verbatim>\<open>util.scaleMtLog\<close> and
  changes nothing here. \<^verbatim>\<open>pop(0)\<close> of an empty list raises.
\<close>

definition logAfterTranslation ::
  "'m handler \<Rightarrow> datetime \<Rightarrow> int \<Rightarrow> datetime \<Rightarrow> datetime \<Rightarrow> datetime
     \<Rightarrow> (error + unit) \<times> 'm handler" where
  "logAfterTranslation st before len after now_oldest now_check =
     (if status st = 200 then
        (let oldest = (case stats_timing st of [] \<Rightarrow> now_oldest | s # _ \<Rightarrow> fst s)
         in case STAT_PERIOD_MAX_AGE st of
              None \<Rightarrow> (Inl AttributeError, st)
            | Some max_age \<Rightarrow>
                (if now_check - oldest > max_age then
                   (case stats_timing st of
                      [] \<Rightarrow> (Inl IndexError, st)
                    | _ # rest \<Rightarrow>
                        (Inr (), st\<lparr>stats_timing := rest @ [(before, after, len)]\<rparr>))
                 else (Inr (), st\<lparr>stats_timing := stats_timing st @ [(before, after, len)]\<rparr>)))
      else (Inr (), st))"

subsection \<open>Unknown-word marks\<close>

text \<open>
  The compiled pattern \<^verbatim>\<open>[*]([^.,;:\t\* ]+)\<close>: a star, then the longest non-empty run
  of characters outside the class. \<open>sub_marks\<close> is \<^verbatim>\<open>re.sub(unknownMarkRE, r'\1', text)\<close>
  and \<open>findall_marks\<close> is \<^verbatim>\<open>re.findall(unknownMarkRE, text)\<close>: both scan from the left
  and continue after each match. A text is a list of bytes; the characters of the
  pattern are ASCII, and no byte of a longer UTF-8 sequence is.
\<close>

definition mark_char :: "char \<Rightarrow> bool" where
  "mark_char c = (c \<notin> set [CHR ''.'', CHR '','', CHR '';'', CHR '':'', CHR 0x09, CHR ''*'', CHR '' ''])"

function sub_marks :: "string \<Rightarrow> string" where
  "sub_marks [] = []"
| "sub_marks (c # cs) =
     (if c = CHR ''*'' \<and> takeWhile mark_char cs \<noteq> []
      then takeWhile mark_char cs @ sub_marks (dropWhile mark_char cs)
      else c # sub_marks cs)"
  by pat_completeness auto
termination
  by (relation "measure length") (auto simp: le_imp_less_Suc length_dropWhile_le)

function findall_marks :: "string \<Rightarrow> string list" where
  "findall_marks [] = []"
| "findall_marks (c # cs) =
     (if c = CHR ''*'' \<and> takeWhile mark_char cs \<noteq> []
      then takeWhile mark_char cs # findall_marks (dropWhile mark_char cs)
      else findall_marks cs)"
  by pat_completeness auto
termination
  by (relation "measure length") (auto simp: le_imp_less_Suc length_dropWhile_le)

text \<open>
  \<^verbatim>\<open>noteUnknownTokens(pair, text)\<close>: one call \<^verbatim>\<open>missingFreqsDb.noteUnknown(token, pair)\<close>
  for each match, in order, when the store is not \<^verbatim>\<open>None\<close>.
\<close>

definition noteUnknownTokens :: "'m handler \<Rightarrow> string \<Rightarrow> string \<Rightarrow> 'm handler" where
  "noteUnknownTokens st pair text =
     (case missingFreqsDb st of
        None \<Rightarrow> st
      | Some db \<Rightarrow>
          st\<lparr>missingFreqsDb := Some (db @ map (\<lambda>token. (token, pair)) (findall_marks text))\<rparr>)"

definition maybeStripMarks :: "'m handler \<Rightarrow> bool \<Rightarrow> pair \<Rightarrow> string \<Rightarrow> string \<times> 'm handler" where
  "maybeStripMarks st markUnknown pair translated =
     (let st' = noteUnknownTokens st (fst pair @ ''-'' @ snd pair) translated
      in if markUnknown then (translated, st') else (sub_marks translated, st'))"

subsection \<open>The request path: getPairOrError, translateAndRespond and get\<close>

text \<open>
  \<^verbatim>\<open>s.split(sep)\<close> for a separator of one character: the part before the first
  separator, then the split of what follows it.
\<close>

function split_on :: "char \<Rightarrow> string \<Rightarrow> string list" where
  "split_on sep s =
     (case dropWhile (\<lambda>c. c \<noteq> sep) s of
        [] \<Rightarrow> [takeWhile (\<lambda>c. c \<noteq> sep) s]
      | _ # rest \<Rightarrow> takeWhile (\<lambda>c. c \<noteq> sep) s # split_on sep rest)"
  by pat_completeness auto
termination
proof (relation "measure (\<lambda>(sep, s). length s)")
  show "wf (measure (\<lambda>(sep, s). length s))" by simp
next
  fix sep :: char and s :: string and x rest
  assume "dropWhile (\<lambda>c. c \<noteq> sep) s = x # rest"
  then have "length (x # rest) \<le> length s"
    using length_dropWhile_le[of "\<lambda>c. c \<noteq> sep" s] by simp
  then show "((sep, rest), (sep, s)) \<in> measure (\<lambda>(sep, s). length s)" by simp
qed

declare split_on.simps [simp del]

text \<open>
  \<^verbatim>\<open>send_error(code, explanation=...)\<close> of the web framework sets the status and
  finishes the response with the error body; \<^verbatim>\<open>sendResponse\<close> finishes it with the
  data. \<open>sent\<close> keeps the explanation or the translated text of the body.
\<close>

definition send_error :: "'m handler \<Rightarrow> int \<Rightarrow> string \<Rightarrow> 'm handler" where
  "send_error st code explanation = st\<lparr>status := code, sent := Some explanation\<rparr>"

definition sendResponse :: "'m handler \<Rightarrow> string \<Rightarrow> 'm handler" where
  "sendResponse st translatedText = st\<lparr>sent := Some translatedText\<rparr>"

text \<open>
  What a request reads from outside \<^verbatim>\<open>servlet.py\<close>: the comparison of pipelines, the
  functions of \<^verbatim>\<open>util\<close> and \<^verbatim>\<open>translation\<close>, the result of \<^verbatim>\<open>pipeline.translate\<close>
  and what that call did to the counters of the pipeline object (\<open>touch\<close>), and the
  clocks: the readings of \<^verbatim>\<open>datetime.now()\<close> by the place that reads them, and of
  \<^verbatim>\<open>time.time()\<close> by the pipe examined.
\<close>

record 'm world =
  pipeline_lt :: "pipeline \<Rightarrow> pipeline \<Rightarrow> bool"
  toAlpha3Code :: "string \<Rightarrow> string"
  parseModeFile :: "string \<Rightarrow> error + 'm"
  makePipeline :: "'m \<Rightarrow> error + pipeline"
  translate :: "pipeline \<Rightarrow> string \<Rightarrow> error + string"
  touch :: "pipeline \<Rightarrow> pipeline"
  now_before :: datetime
  now_after :: datetime
  now_oldest :: datetime
  now_check :: datetime
  time_time :: "pair \<Rightarrow> nat \<Rightarrow> real"

text \<open>
  \<^verbatim>\<open>getPairOrError(langpair, text_length)\<close>. Unpacking into \<^verbatim>\<open>l1, l2\<close> raises
  \<^verbatim>\<open>ValueError\<close> unless the list has two elements.
\<close>

definition getPairOrError ::
  "'m handler \<Rightarrow> 'm world \<Rightarrow> string \<Rightarrow> int \<Rightarrow> (error + pair option) \<times> 'm handler" where
  "getPairOrError st w langpair text_length =
     (case map (toAlpha3Code w) (split_on CHR ''|'' langpair) of
        [l1, l2] \<Rightarrow>
          (if pairs st (l1 @ ''-'' @ l2) = None then
             (let st1 = send_error st 400 ''That pair is not installed''
              in case logAfterTranslation st1 (now_before w) text_length
                        (now_after w) (now_oldest w) (now_check w) of
                   (Inl e, st2) \<Rightarrow> (Inl e, st2)
                 | (Inr _, st2) \<Rightarrow> (Inr None, st2))
           else (Inr (Some (l1, l2)), st))
      | _ \<Rightarrow>
          (let st1 = send_error st 400 ''That pair is invalid, use e.g. eng|spa''
           in case logAfterTranslation st1 (now_before w) text_length
                     (now_after w) (now_oldest w) (now_check w) of
                (Inl e, st2) \<Rightarrow> (Inl e, st2)
              | (Inr _, st2) \<Rightarrow> (Inr None, st2)))"

text \<open>
  The pipeline object is shared by the pool, the holding area and the request that
  uses it: what \<^verbatim>\<open>pipeline.translate\<close> did to its counters shows wherever the object
  is held.
\<close>

definition touched :: "'m handler \<Rightarrow> nat \<Rightarrow> (pipeline \<Rightarrow> pipeline) \<Rightarrow> 'm handler" where
  "touched st i f =
     (let upd = (\<lambda>p. if pid p = i then (f p)\<lparr>pid := i\<rparr> else p)
      in st\<lparr>pipelines := map (\<lambda>(pair, pipes). (pair, map upd pipes)) (pipelines st),
            pipelines_holding := map upd (pipelines_holding st)\<rparr>)"

text \<open>
  \<^verbatim>\<open>translateAndRespond\<close>, run without another request in between. An exception of
  \<^verbatim>\<open>pipeline.translate\<close> leaves the coroutine at the \<^verbatim>\<open>yield\<close>. The length logged
  with a sample is the number of characters of the list that stands for the text.
\<close>

definition translateAndRespond ::
  "'m handler \<Rightarrow> 'm world \<Rightarrow> pair \<Rightarrow> pipeline \<Rightarrow> string \<Rightarrow> string \<Rightarrow> (error + unit) \<times> 'm handler" where
  "translateAndRespond st w pair pipeline toTranslate markUnknown =
     (let markUnknown' = (markUnknown \<in> set [''yes'', ''true'', ''1'']);
          st1 = notePairUsage st pair;
          before = now_before w
      in case translate w pipeline toTranslate of
           Inl e \<Rightarrow> (Inl e, touched st1 (pid pipeline) (touch w))
         | Inr translated \<Rightarrow>
             (case logAfterTranslation (touched st1 (pid pipeline) (touch w)) before
                     (int (length toTranslate)) (now_after w) (now_oldest w) (now_check w) of
                (Inl e, st2) \<Rightarrow> (Inl e, st2)
              | (Inr _, st2) \<Rightarrow>
                  (case maybeStripMarks st2 markUnknown' pair translated of
                     (text, st3) \<Rightarrow>
                       (Inr (), cleanPairs (pipeline_lt w) (sendResponse st3 text) (time_time w)))))"

text \<open>
  The arguments of a request to \<^verbatim>\<open>/translate\<close>; \<^verbatim>\<open>get_argument\<close> raises for a missing
  argument that has no default. \<^verbatim>\<open>getFormat\<close> only chooses the formatter names handed
  to \<^verbatim>\<open>pipeline.translate\<close>.
\<close>

record request =
  arg_langpair :: "string option"
  arg_q :: "string option"
  arg_markUnknown :: "string option"

definition get :: "'m handler \<Rightarrow> 'm world \<Rightarrow> request \<Rightarrow> (error + unit) \<times> 'm handler" where
  "get st w req =
     (case arg_langpair req of
        None \<Rightarrow> (Inl MissingArgumentError, st)
      | Some langpair \<Rightarrow>
          (case arg_q req of
             None \<Rightarrow> (Inl MissingArgumentError, st)
           | Some q \<Rightarrow>
               (case getPairOrError st w langpair (int (length q)) of
                  (Inl e, st1) \<Rightarrow> (Inl e, st1)
                | (Inr None, st1) \<Rightarrow> (Inr (), st1)
                | (Inr (Some pair), st1) \<Rightarrow>
                    (case getPipeline (pipeline_lt w) st1 pair (parseModeFile w) (makePipeline w) of
                       (Inl e, st2) \<Rightarrow> (Inl e, st2)
                     | (Inr pipeline, st2) \<Rightarrow>
                         translateAndRespond st2 w pair pipeline q
                           (case arg_markUnknown req of None \<Rightarrow> ''yes'' | Some m \<Rightarrow> m)))))"

subsection \<open>The start-up check\<close>

text \<open>
  \<^verbatim>\<open>re.search\<close> of the pattern \<^verbatim>\<open>UTF-?8\<close> compiled with \<^verbatim>\<open>re.IGNORECASE\<close>:
  \<open>match_u8\<close> matches at the start of the string, \<open>search_u8\<close> tries every position.
\<close>

definition ci :: "char \<Rightarrow> char \<Rightarrow> char \<Rightarrow> bool" where
  "ci upper lower c = (c = upper \<or> c = lower)"

fun match_u8 :: "string \<Rightarrow> bool" where
  "match_u8 (u # t # f # rest) =
     (ci CHR ''U'' CHR ''u'' u \<and> ci CHR ''T'' CHR ''t'' t \<and> ci CHR ''F'' CHR ''f'' f \<and>
      (case rest of
         [] \<Rightarrow> False
       | d # rest' \<Rightarrow>
           (d = CHR ''-'' \<and> (case rest' of [] \<Rightarrow> False | e # _ \<Rightarrow> e = CHR ''8''))
           \<or> d = CHR ''8''))"
| "match_u8 _ = False"

fun search_u8 :: "string \<Rightarrow> bool" where
  "search_u8 [] = match_u8 []"
| "search_u8 (c # cs) = (match_u8 (c # cs) \<or> search_u8 cs)"

text \<open>
  \<^verbatim>\<open>sanity_check\<close>; \<open>environ\<close> is \<^verbatim>\<open>os.environ\<close>, and \<^verbatim>\<open>sys.exit(1)\<close> raises
  \<^verbatim>\<open>SystemExit(1)\<close>.
\<close>

definition sanity_check :: "(string \<rightharpoonup> string) \<Rightarrow> error + unit" where
  "sanity_check environ =
     (let locale_vars = [''LANG'', ''LC_ALL'']
      in if \<not> list_ex (\<lambda>key. search_u8 (case environ key of None \<Rightarrow> [] | Some v \<Rightarrow> v)) locale_vars
         then Inl (SystemExit 1) else Inr ())"

subsection \<open>Sequences of pool operations\<close>

text \<open>
  What happens to the pools between requests: a call of \<^verbatim>\<open>getPipeline\<close>, a call of
  \<^verbatim>\<open>cleanPairs\<close>, or a change that \<^verbatim>\<open>pipeline.translate\<close> makes to the counters of one
  pipeline object.
\<close>

datatype 'm op =
    GetPipeline pair "string \<Rightarrow> error + 'm" "'m \<Rightarrow> error + pipeline"
  | CleanPairs "pair \<Rightarrow> nat \<Rightarrow> real"
  | Touch nat "pipeline \<Rightarrow> pipeline"

fun step :: "(pipeline \<Rightarrow> pipeline \<Rightarrow> bool) \<Rightarrow> 'm handler \<Rightarrow> 'm op \<Rightarrow> 'm handler" where
  "step lt st (GetPipeline pair parse mk) = snd (getPipeline lt st pair parse mk)"
| "step lt st (CleanPairs clock) = cleanPairs lt st clock"
| "step lt st (Touch i f) = touched st i f"

definition run :: "(pipeline \<Rightarrow> pipeline \<Rightarrow> bool) \<Rightarrow> 'm handler \<Rightarrow> 'm op list \<Rightarrow> 'm handler" where
  "run lt st ops = foldl (step lt) st ops"

subsection \<open>The wording of the specification\<close>

text \<open>
  The text with the leading star stripped from every marked token: a star goes when
  the character after it can start a token. \<open>marked_tokens\<close> are the tokens after such
  stars, each as long as it can be.
\<close>

fun strip_stars :: "string \<Rightarrow> string" where
  "strip_stars (c # d # cs) =
     (if c = CHR ''*'' \<and> mark_char d then strip_stars (d # cs) else c # strip_stars (d # cs))"
| "strip_stars cs = cs"

fun marked_tokens :: "string \<Rightarrow> string list" where
  "marked_tokens (c # d # cs) =
     (if c = CHR ''*'' \<and> mark_char d then takeWhile mark_char (d # cs) # marked_tokens (d # cs)
      else marked_tokens (d # cs))"
| "marked_tokens cs = []"

text \<open>
  A string contains a substring that is \<^verbatim>\<open>UTF8\<close> or \<^verbatim>\<open>UTF-8\<close> when letters are
  compared without case.
\<close>

definition ascii_upper :: "char \<Rightarrow> char" where
  "ascii_upper c =
     (case map_of (zip ''abcdefghijklmnopqrstuvwxyz'' ''ABCDEFGHIJKLMNOPQRSTUVWXYZ'') c of
        None \<Rightarrow> c
      | Some u \<Rightarrow> u)"

definition contains_utf8 :: "string \<Rightarrow> bool" where
  "contains_utf8 s =
     list_ex (\<lambda>i. map ascii_upper (take 4 (drop i s)) = ''UTF8''
                 \<or> map ascii_upper (take 5 (drop i s)) = ''UTF-8'') [0 ..< length s]"

subsection \<open>Example values\<close>

text \<open>
  The class attributes as \<^verbatim>\<open>BaseHandler\<close> declares them, in a handler that has not
  answered yet (the framework starts a response with status 200).
\<close>

definition initial :: "'m handler" where
  "initial =
     \<lparr>pairs = Map.empty, pipelines = [], pipelines_holding = [], pipeline_cmds = Map.empty,
      stats_useCount = Map.empty, stats_timing = [],
      max_pipes_per_pair = 1, min_pipes_per_pair = 0, max_users_per_pipe = 5,
      max_idle_secs = 0, restart_pipe_after = 1000, scaleMtLogs = False,
      STAT_PERIOD_MAX_AGE = None, missingFreqsDb = None, status = 200, sent = None\<rparr>"

text \<open>A comparison of pipelines for the examples: fewer users first.\<close>

definition users_lt :: "pipeline \<Rightarrow> pipeline \<Rightarrow> bool" where
  "users_lt a b = (users a < users b)"

definition pipe :: "nat \<Rightarrow> int \<Rightarrow> int \<Rightarrow> real \<Rightarrow> pipeline" where
  "pipe i u n t = \<lparr>pid = i, users = u, useCount = n, lastUsage = t\<rparr>"

text \<open>Pools for the examples of eviction, and statistics for those of the timing list.\<close>

definition eng_spa :: pair where
  "eng_spa = (''eng'', ''spa'')"

definition idle_ex :: "unit handler" where
  "idle_ex = initial\<lparr>pipelines := [(eng_spa, [pipe 1 0 0 0])], max_idle_secs := - 1\<rparr>"

definition rotate_ex :: "unit handler" where
  "rotate_ex = initial\<lparr>pipelines := [(eng_spa, [pipe 1 2 1001 0, pipe 2 0 3 0])]\<rparr>"

definition refused_ex :: "unit handler" where
  "refused_ex = initial\<lparr>status := 400, stats_timing := [(0, 1, 5)]\<rparr>"

definition stale_ex :: "unit handler" where
  "stale_ex = initial\<lparr>STAT_PERIOD_MAX_AGE := Some 3600000000,
                       stats_timing := [(0, 500000, 5), (1000000, 1500000, 5)]\<rparr>"

text \<open>
  A server with one installed pair and a store for unknown words; a world whose
  pipelines echo their input, and one whose pipelines fail; a request.
\<close>

definition server_ex :: "unit handler" where
  "server_ex = initial\<lparr>pairs := [''eng-spa'' \<mapsto> ''/modes/eng-spa.mode''],
                         STAT_PERIOD_MAX_AGE := Some 3600000000,
                         missingFreqsDb := Some []\<rparr>"

definition echo_world :: "unit world" where
  "echo_world =
     \<lparr>pipeline_lt = users_lt, toAlpha3Code = (\<lambda>code. code), parseModeFile = (\<lambda>path. Inr ()),
      makePipeline = (\<lambda>cmds. Inr (pipe 1 0 0 0)), translate = (\<lambda>p q. Inr q),
      touch = (\<lambda>p. p), now_before = 10, now_after = 20, now_oldest = 20, now_check = 20,
      time_time = (\<lambda>pair i. 0)\<rparr>"

definition broken_world :: "unit world" where
  "broken_world = echo_world\<lparr>translate := (\<lambda>p q. Inl (Raised ''translation failed''))\<rparr>"

definition request_ex :: request where
  "request_ex = \<lparr>arg_langpair = Some ''eng|spa'', arg_q = Some ''*foo bar'',
                  arg_markUnknown = Some ''no''\<rparr>"

text \<open>Pools and operations for the examples of starting pipelines.\<close>

definition full_ex :: "unit handler" where
  "full_ex = initial\<lparr>pipelines := [(eng_spa, [pipe 1 5 0 0])], max_pipes_per_pair := 2\<rparr>"

definition busy_ex :: "unit handler" where
  "busy_ex = server_ex\<lparr>pipelines := [(eng_spa, [pipe 1 6 0 0])], max_pipes_per_pair := 2\<rparr>"

definition zero_ex :: "unit handler" where
  "zero_ex = server_ex\<lparr>max_pipes_per_pair := 0\<rparr>"

definition ops_ex :: "unit op list" where
  "ops_ex = [GetPipeline eng_spa (\<lambda>path. Inr ()) (\<lambda>cmds. Inr (pipe 1 0 0 0)),
             CleanPairs (\<lambda>pair i. 0),
             GetPipeline eng_spa (\<lambda>path. Inr ()) (\<lambda>cmds. Inr (pipe 2 0 0 0))]"

text \<open>A request whose pair is not of the form \<^verbatim>\<open>src|tgt\<close>.\<close>

definition bad_request_ex :: request where
  "bad_request_ex = \<lparr>arg_langpair = Some ''eng'', arg_q = Some ''hello'', arg_markUnknown = None\<rparr>"

section \<open>Properties\<close>

subsection \<open>heapq keeps the elements\<close>

lemma length_siftdown_loop: "length (siftdown_loop lt heap s pos x) = length heap"
  by (induction lt heap s pos x rule: siftdown_loop.induct)
     (subst siftdown_loop.simps, simp add: Let_def)

lemma mset_siftdown_loop:
  "pos < length heap \<Longrightarrow> mset (siftdown_loop lt heap s pos x) = mset (heap[pos := x])"
proof (induction lt heap s pos x rule: siftdown_loop.induct)
  case (1 lt heap startpos pos newitem)
  show ?case
  proof (cases "pos > startpos \<and> lt newitem (heap ! ((pos - 1) div 2))")
    case True
    let ?pp = "(pos - 1) div 2"
    have pp: "?pp < pos" using True by auto
    then have ppl: "?pp < length heap" using "1.prems" by simp
    have "mset (siftdown_loop lt heap startpos pos newitem)
          = mset (siftdown_loop lt (heap[pos := heap ! ?pp]) startpos ?pp newitem)"
      using True by (subst siftdown_loop.simps) (simp add: Let_def)
    also have "\<dots> = mset (heap[pos := heap ! ?pp, ?pp := newitem])"
      using True ppl "1.IH"[of ?pp "heap ! ?pp"] by simp
    also have "\<dots> = mset (heap[pos := newitem])"
      using mset_swap[of ?pp "heap[pos := newitem]" pos] pp ppl "1.prems"
      by (simp add: list_update_swap)
    finally show ?thesis .
  next
    case False
    then show ?thesis by (subst siftdown_loop.simps) (auto simp add: Let_def)
  qed
qed

lemma mset_siftdown: "pos < length heap \<Longrightarrow> mset (siftdown lt heap s pos) = mset heap"
  by (simp add: siftdown_def mset_siftdown_loop)

lemma length_siftdown: "length (siftdown lt heap s pos) = length heap"
  by (simp add: siftdown_def length_siftdown_loop)

lemma mset_heappush: "mset (heappush lt heap item) = add_mset item (mset heap)"
  by (simp add: heappush_def mset_siftdown)

lemma length_heappush: "length (heappush lt heap item) = Suc (length heap)"
  by (simp add: heappush_def length_siftdown)

lemma siftup_loop_props:
  "pos < length heap \<Longrightarrow> siftup_loop lt heap pos = (h', p') \<Longrightarrow>
     length h' = length heap \<and> p' < length heap \<and> mset (h'[p' := x]) = mset (heap[pos := x])"
proof (induction lt heap pos arbitrary: h' p' rule: siftup_loop.induct)
  case (1 lt heap pos)
  let ?c = "2 * pos + 1"
  show ?case
  proof (cases "?c < length heap")
    case False
    then have "siftup_loop lt heap pos = (heap, pos)"
      by (subst siftup_loop.simps) (simp add: Let_def)
    with "1.prems" show ?thesis by simp
  next
    case True
    define c' where "c' = (if ?c + 1 < length heap \<and> \<not> lt (heap ! ?c) (heap ! (?c + 1)) then ?c + 1 else ?c)"
    have c'l: "c' < length heap" and c'p: "pos < c'" using True by (auto simp: c'_def)
    have eq: "siftup_loop lt heap pos = siftup_loop lt (heap[pos := heap ! c']) c'"
      using True by (subst siftup_loop.simps) (simp add: Let_def c'_def)
    have rec: "siftup_loop lt (heap[pos := heap ! c']) c' = (h', p')"
      using eq "1.prems" by simp
    have IH: "length h' = length (heap[pos := heap ! c']) \<and> p' < length (heap[pos := heap ! c'])
        \<and> mset (h'[p' := x]) = mset (heap[pos := heap ! c', c' := x])"
      using "1.IH"[of "length heap" "?c" "?c + 1" c' h' p'] True c'l rec
      by (simp add: c'_def)
    have "mset (heap[pos := heap ! c', c' := x]) = mset (heap[pos := x])"
      using mset_swap[of c' "heap[pos := x]" pos] c'l c'p "1.prems"(1)
      by (simp add: list_update_swap)
    with IH show ?thesis by simp
  qed
qed


lemma siftup_props:
  assumes "pos < length heap"
  shows "length (siftup lt heap pos) = length heap" and "mset (siftup lt heap pos) = mset heap"
proof -
  obtain h' p' where r: "siftup_loop lt heap pos = (h', p')" by (cases "siftup_loop lt heap pos")
  from siftup_loop_props[OF assms r, of "heap ! pos"]
  have l: "length h' = length heap" and p: "p' < length heap"
    and m: "mset (h'[p' := heap ! pos]) = mset heap" by simp_all
  have eq: "siftup lt heap pos = siftdown lt (h'[p' := heap ! pos]) pos p'"
    by (simp add: siftup_def r)
  show "length (siftup lt heap pos) = length heap"
    by (simp add: eq length_siftdown l)
  show "mset (siftup lt heap pos) = mset heap"
    using p l by (simp add: eq mset_siftdown m)
qed

lemma fold_siftup_props:
  "\<forall>i \<in> set is. i < length x \<Longrightarrow>
     length (fold (\<lambda>i h. siftup lt h i) is x) = length x \<and>
     mset (fold (\<lambda>i h. siftup lt h i) is x) = mset x"
proof (induction "is" arbitrary: x)
  case Nil
  then show ?case by simp
next
  case (Cons i "is")
  have i: "i < length x" using Cons.prems by simp
  have "\<forall>j \<in> set is. j < length (siftup lt x i)"
    using Cons.prems by (simp add: siftup_props(1)[OF i])
  from Cons.IH[OF this] show ?case
    by (simp add: siftup_props[OF i])
qed

lemma mset_heapify: "mset (heapify lt x) = mset x"
  unfolding heapify_def by (rule fold_siftup_props[THEN conjunct2]) auto

lemma length_heapify: "length (heapify lt x) = length x"
  unfolding heapify_def by (rule fold_siftup_props[THEN conjunct1]) auto

lemma set_heapify: "set (heapify lt x) = set x"
  using mset_heapify[of lt x] by (rule mset_eq_setD)

lemma set_heappush: "set (heappush lt heap item) = insert item (set heap)"
  using mset_heappush[of lt heap item] by (metis mset_eq_setD set_mset_add_mset_insert set_mset_mset)

lemma clean_pools_eq:
  "clean_pools lt st clock pools holding =
     (map (\<lambda>(pair, pipes). (pair, heapify lt (kept (to_clean st (clock pair) pair pipes) pipes))) pools,
      holding @ concat (map (\<lambda>(pair, pipes). to_clean st (clock pair) pair pipes) pools))"
  by (induction pools arbitrary: holding) (simp_all add: Let_def split: prod.splits)

lemma map_of_map_pools:
  "map_of (map (\<lambda>(k, v). (k, f k v)) xs) k = map_option (f k) (map_of xs k)"
  by (induction xs) auto

lemma pool_cleanPairs:
  "pool (cleanPairs lt st clock) pair =
     heapify lt (kept (to_clean st (clock pair) pair (pool st pair)) (pool st pair))"
proof -
  have h: "heapify lt [] = []" by (simp add: heapify_def)
  have k: "kept cs [] = []" for cs by (simp add: kept_def)
  show ?thesis
    by (auto simp: pool_def cleanPairs_def clean_pools_eq map_of_map_pools h k split: option.splits)
qed

lemma holding_cleanPairs:
  "pipelines_holding (cleanPairs lt st clock) =
     filter (\<lambda>p. users p > 0)
       (pipelines_holding st @
        concat (map (\<lambda>(pair, pipes). to_clean st (clock pair) pair pipes) (pipelines st)))"
  by (simp add: cleanPairs_def clean_pools_eq)

lemma set_to_clean:
  "set (to_clean st clock pair pipes) =
     {pipes ! i | i. i < length pipes \<and> cleanable st (clock i) i pair (pipes ! i)}"
  by (auto simp: to_clean_def in_set_enumerate_eq image_iff)

subsection \<open>The holding area after cleanPairs\<close>

text \<open>
  C5. After \<^verbatim>\<open>cleanPairs\<close> every pipeline in \<^verbatim>\<open>pipelines_holding\<close> has \<open>users > 0\<close>:
  a held pipeline whose \<open>users\<close> is zero (or less) is no longer held, and one with
  users is still held.
\<close>

theorem cleanPairs_holding_users:
  "(\<forall>p \<in> set (pipelines_holding (cleanPairs lt st clock)). users p > 0) \<and>
   (\<forall>p \<in> set (pipelines_holding st).
      (users p \<le> 0 \<longrightarrow> p \<notin> set (pipelines_holding (cleanPairs lt st clock))) \<and>
      (users p > 0 \<longrightarrow> p \<in> set (pipelines_holding (cleanPairs lt st clock))))"
  by (auto simp: holding_cleanPairs)

theorem cleanPairs_holding_users_witness:
  "pipelines_holding
     (cleanPairs users_lt
        ((initial :: unit handler)\<lparr>pipelines_holding := [pipe 1 0 7 0, pipe 2 3 7 0]\<rparr>)
        (\<lambda>pair i. 0))
   = [pipe 2 3 7 0] \<and> users (pipe 2 3 7 0) > 0"
  using cleanPairs_holding_users
    [of users_lt "(initial :: unit handler)\<lparr>pipelines_holding := [pipe 1 0 7 0, pipe 2 3 7 0]\<rparr>"
        "\<lambda>pair i. 0"]
  by (simp add: holding_cleanPairs initial_def pipe_def)

subsection \<open>Which pipes cleanPairs evicts\<close>

lemma kept_nth:
  assumes d: "distinct (map pid pipes)" and i: "i < length pipes"
  shows "pid (pipes ! i) \<in> pid ` set (to_clean st clock pair pipes)
           \<longleftrightarrow> cleanable st (clock i) i pair (pipes ! i)"
proof
  assume "pid (pipes ! i) \<in> pid ` set (to_clean st clock pair pipes)"
  then obtain j where j: "j < length pipes" "cleanable st (clock j) j pair (pipes ! j)"
      "pid (pipes ! i) = pid (pipes ! j)"
    by (auto simp: set_to_clean)
  from d i j(1) j(3) have "i = j"
    by (metis distinct_conv_nth length_map nth_map)
  with j(2) show "cleanable st (clock i) i pair (pipes ! i)" by simp
next
  assume "cleanable st (clock i) i pair (pipes ! i)"
  with i show "pid (pipes ! i) \<in> pid ` set (to_clean st clock pair pipes)"
    by (auto simp: set_to_clean)
qed

lemma set_pool_cleanPairs:
  "set (pool (cleanPairs lt st clock) pair) =
     {p \<in> set (pool st pair). pid p \<notin> pid ` set (to_clean st (clock pair) pair (pool st pair))}"
  by (auto simp: pool_cleanPairs set_heapify kept_def)

lemma pool_in_pipelines: "pool st pair \<noteq> [] \<Longrightarrow> (pair, pool st pair) \<in> set (pipelines st)"
  by (auto simp: pool_def split: option.splits dest: map_of_SomeD)

text \<open>
  C4, as the code has it. In a pool whose pipelines are distinct objects, \<^verbatim>\<open>cleanPairs\<close>
  removes the pipe at index \<open>i\<close> exactly when its \<open>useCount\<close> exceeds
  \<open>restart_pipe_after\<close>, or \<open>i \<ge> min_pipes_per_pair\<close>, \<open>max_idle_secs\<close> is not 0 and the
  pipe has been idle for more than \<open>max_idle_secs\<close>; the pool gains no pipe; and a
  removed pipe is in the holding area afterwards exactly when it still has users.
\<close>

theorem cleanPairs_evicts:
  assumes d: "distinct (map pid (pool st pair))" and i: "i < length (pool st pair)"
  shows "(pool st pair ! i \<notin> set (pool (cleanPairs lt st clock) pair)
            \<longleftrightarrow> (useCount (pool st pair ! i) > restart_pipe_after st
                 \<or> (int i \<ge> min_pipes_per_pair st \<and> max_idle_secs st \<noteq> 0
                    \<and> clock pair i - lastUsage (pool st pair ! i) > real_of_int (max_idle_secs st))))
         \<and> set (pool (cleanPairs lt st clock) pair) \<subseteq> set (pool st pair)
         \<and> (pool st pair ! i \<notin> set (pool (cleanPairs lt st clock) pair)
              \<longrightarrow> (pool st pair ! i \<in> set (pipelines_holding (cleanPairs lt st clock))
                     \<longleftrightarrow> users (pool st pair ! i) > 0))"
proof -
  let ?p = "pool st pair ! i"
  have mem: "?p \<in> set (pool st pair)" using i by simp
  have ev: "?p \<notin> set (pool (cleanPairs lt st clock) pair)
              \<longleftrightarrow> cleanable st (clock pair i) i pair ?p"
    using mem kept_nth[OF d i, of st "clock pair" pair] by (simp add: set_pool_cleanPairs)
  have c: "cleanable st (clock pair i) i pair ?p \<longleftrightarrow>
      (useCount ?p > restart_pipe_after st
         \<or> (int i \<ge> min_pipes_per_pair st \<and> max_idle_secs st \<noteq> 0
            \<and> clock pair i - lastUsage ?p > real_of_int (max_idle_secs st)))"
    by (simp add: cleanable_def)
  have sub: "set (pool (cleanPairs lt st clock) pair) \<subseteq> set (pool st pair)"
    by (auto simp: set_pool_cleanPairs)
  have hold: "?p \<in> set (pipelines_holding (cleanPairs lt st clock)) \<longleftrightarrow> users ?p > 0"
    if cl: "cleanable st (clock pair i) i pair ?p"
  proof -
    have ne: "pool st pair \<noteq> []" using i by auto
    have a: "?p \<in> set (to_clean st (clock pair) pair (pool st pair))"
      using cl i unfolding set_to_clean by blast
    have b: "(pair, pool st pair) \<in> set (pipelines st)" by (rule pool_in_pipelines[OF ne])
    have c: "?p \<in> set (concat (map (\<lambda>(pair, pipes). to_clean st (clock pair) pair pipes) (pipelines st)))"
      unfolding set_concat set_map
      by (rule UN_I[OF imageI[OF b]]) (simp add: a)
    show ?thesis unfolding holding_cleanPairs set_filter set_append using c by blast
  qed
  show ?thesis
  proof (intro conjI impI)
    show "?p \<notin> set (pool (cleanPairs lt st clock) pair)
            \<longleftrightarrow> (useCount ?p > restart_pipe_after st
                 \<or> (int i \<ge> min_pipes_per_pair st \<and> max_idle_secs st \<noteq> 0
                    \<and> clock pair i - lastUsage ?p > real_of_int (max_idle_secs st)))"
      using ev c by simp
    show "set (pool (cleanPairs lt st clock) pair) \<subseteq> set (pool st pair)" by (rule sub)
    assume "?p \<notin> set (pool (cleanPairs lt st clock) pair)"
    then have "cleanable st (clock pair i) i pair ?p" using ev by simp
    then show "?p \<in> set (pipelines_holding (cleanPairs lt st clock)) \<longleftrightarrow> users ?p > 0"
      by (rule hold)
  qed
qed

theorem cleanPairs_evicts_witness:
  "distinct (map pid (pool rotate_ex eng_spa)) \<and> 0 < length (pool rotate_ex eng_spa)
   \<and> useCount (pool rotate_ex eng_spa ! 0) > restart_pipe_after rotate_ex
   \<and> pool rotate_ex eng_spa ! 0 \<notin> set (pool (cleanPairs users_lt rotate_ex (\<lambda>pair i. 10)) eng_spa)
   \<and> pool rotate_ex eng_spa ! 0 \<in> set (pipelines_holding (cleanPairs users_lt rotate_ex (\<lambda>pair i. 10)))"
proof -
  have p: "pool rotate_ex eng_spa = [pipe 1 2 1001 0, pipe 2 0 3 0]"
    by (simp add: rotate_ex_def pool_def)
  have d: "distinct (map pid (pool rotate_ex eng_spa))" by (simp add: p pipe_def)
  have i: "0 < length (pool rotate_ex eng_spa)" by (simp add: p)
  have r: "restart_pipe_after rotate_ex = 1000" by (simp add: rotate_ex_def initial_def)
  have u: "useCount (pool rotate_ex eng_spa ! 0) > restart_pipe_after rotate_ex"
    by (simp add: p r pipe_def)
  have n: "users (pool rotate_ex eng_spa ! 0) > 0" by (simp add: p pipe_def)
  from cleanPairs_evicts[OF d i, of users_lt "\<lambda>pair i. 10"] u n d i show ?thesis
    by blast
qed

text \<open>
  With \<open>max_idle_secs = -1\<close> the only pipe of the pool, idle for 10 seconds, is evicted,
  though \<open>max_idle_secs > 0\<close> fails and its \<open>useCount\<close> is 0.
\<close>

theorem cleanPairs_evicts_counterexample:
  "pool idle_ex eng_spa ! 0 \<notin> set (pool (cleanPairs users_lt idle_ex (\<lambda>pair i. 10)) eng_spa)
   \<and> \<not> (useCount (pool idle_ex eng_spa ! 0) > restart_pipe_after idle_ex
        \<or> (int 0 \<ge> min_pipes_per_pair idle_ex \<and> max_idle_secs idle_ex > 0
           \<and> 10 - lastUsage (pool idle_ex eng_spa ! 0) > real_of_int (max_idle_secs idle_ex)))"
  by (simp add: idle_ex_def initial_def pipe_def pool_def cleanPairs_def Let_def to_clean_def
        cleanable_def kept_def heapify_def enumerate_eq_zip)

subsection \<open>The timing list\<close>

text \<open>
  C10. \<^verbatim>\<open>logAfterTranslation\<close> changes nothing when the status of the response is
  not 200, and \<^verbatim>\<open>getPairOrError\<close>, which calls it after sending status 400, never
  changes \<^verbatim>\<open>stats['timing']\<close>.
\<close>

theorem logAfterTranslation_not_200:
  "(status st \<noteq> 200 \<longrightarrow>
      logAfterTranslation st before len after now1 now2 = (Inr (), st))
   \<and> stats_timing (snd (getPairOrError st w langpair len)) = stats_timing st"
  by (auto simp: logAfterTranslation_def getPairOrError_def send_error_def Let_def
           split: list.splits)

theorem logAfterTranslation_not_200_witness:
  "status refused_ex \<noteq> 200
   \<and> stats_timing (snd (logAfterTranslation refused_ex 7 4 8 9 10)) = [(0, 1, 5)]"
proof -
  have s: "status refused_ex \<noteq> 200" by (simp add: refused_ex_def initial_def)
  have t: "stats_timing refused_ex = [(0, 1, 5)]" by (simp add: refused_ex_def)
  from logAfterTranslation_not_200[of refused_ex 7 4 8 9 10] s t show ?thesis by simp
qed

text \<open>
  C7 at an input where it fails. Two requests were logged at 0 s and 1 s, the window is
  3600 s, and a third request is logged at 10000 s: only the first sample is dropped,
  and the sample that started at 1 s stays in the list, older than the window.
\<close>

theorem logAfterTranslation_keeps_stale_sample:
  "logAfterTranslation stale_ex 9999000000 4 10000000000 10000000000 10000000000
     = (Inr (), stale_ex\<lparr>stats_timing :=
                         [(1000000, 1500000, 5), (9999000000, 10000000000, 4)]\<rparr>)
   \<and> 10000000000 - 1000000 > (3600000000 :: int)"
  by (simp add: logAfterTranslation_def stale_ex_def initial_def)

subsection \<open>Unknown-word marks\<close>

lemma mark_char_not_star: "mark_char c \<Longrightarrow> c \<noteq> CHR ''*''"
  by (auto simp: mark_char_def)

lemma strip_stars_Cons: "x \<noteq> CHR ''*'' \<Longrightarrow> strip_stars (x # ys) = x # strip_stars ys"
  by (cases ys) simp_all

lemma strip_stars_token:
  "\<forall>x \<in> set xs. mark_char x \<Longrightarrow> strip_stars (xs @ ys) = xs @ strip_stars ys"
  by (induction xs) (simp_all add: strip_stars_Cons mark_char_not_star)

lemma takeWhile_ne: "takeWhile P cs \<noteq> [] \<longleftrightarrow> (\<exists>d cs'. cs = d # cs' \<and> P d)"
  by (cases cs) auto

lemma sub_marks_strip_stars: "sub_marks s = strip_stars s"
proof (induction s rule: sub_marks.induct)
  case 1
  show ?case by simp
next
  case (2 c cs)
  show ?case
  proof (cases "c = CHR ''*'' \<and> takeWhile mark_char cs \<noteq> []")
    case True
    then obtain d cs' where cs: "cs = d # cs'" and d: "mark_char d"
      by (auto simp: takeWhile_ne)
    have "strip_stars (c # cs) = strip_stars cs" using True cs d by simp
    also have "\<dots> = strip_stars (takeWhile mark_char cs @ dropWhile mark_char cs)" by simp
    also have "\<dots> = takeWhile mark_char cs @ strip_stars (dropWhile mark_char cs)"
      by (rule strip_stars_token) (auto dest: set_takeWhileD)
    finally show ?thesis using True "2.IH"(1) by simp
  next
    case False
    then have "sub_marks (c # cs) = c # strip_stars cs" using "2.IH"(2) by auto
    moreover have "strip_stars (c # cs) = c # strip_stars cs"
      using False by (cases cs) auto
    ultimately show ?thesis by simp
  qed
qed

lemma marked_tokens_Cons: "x \<noteq> CHR ''*'' \<Longrightarrow> marked_tokens (x # ys) = marked_tokens ys"
  by (cases ys) simp_all

lemma marked_tokens_token:
  "\<forall>x \<in> set xs. mark_char x \<Longrightarrow> marked_tokens (xs @ ys) = marked_tokens ys"
  by (induction xs) (simp_all add: marked_tokens_Cons mark_char_not_star)

lemma findall_marks_marked_tokens: "findall_marks s = marked_tokens s"
proof (induction s rule: findall_marks.induct)
  case 1
  show ?case by simp
next
  case (2 c cs)
  show ?case
  proof (cases "c = CHR ''*'' \<and> takeWhile mark_char cs \<noteq> []")
    case True
    then obtain d cs' where cs: "cs = d # cs'" and d: "mark_char d"
      by (auto simp: takeWhile_ne)
    have "marked_tokens (c # cs) = takeWhile mark_char cs # marked_tokens cs"
      using True cs d by simp
    also have "marked_tokens cs = marked_tokens (takeWhile mark_char cs @ dropWhile mark_char cs)"
      by simp
    also have "\<dots> = marked_tokens (dropWhile mark_char cs)"
      by (rule marked_tokens_token) (auto dest: set_takeWhileD)
    finally show ?thesis using True "2.IH"(1) by simp
  next
    case False
    then have "findall_marks (c # cs) = marked_tokens cs" using "2.IH"(2) by auto
    moreover have "marked_tokens (c # cs) = marked_tokens cs"
      using False by (cases cs) auto
    ultimately show ?thesis by simp
  qed
qed

lemma cleanPairs_sent: "sent (cleanPairs lt st clock) = sent st"
  by (simp add: cleanPairs_def split: prod.splits)

lemma maybeStripMarks_eq:
  "maybeStripMarks st markUnknown pair translated =
     (if markUnknown then translated else strip_stars translated,
      case missingFreqsDb st of
        None \<Rightarrow> st
      | Some db \<Rightarrow>
          st\<lparr>missingFreqsDb :=
               Some (db @ map (\<lambda>token. (token, fst pair @ ''-'' @ snd pair))
                             (marked_tokens translated))\<rparr>)"
  by (simp add: maybeStripMarks_def noteUnknownTokens_def Let_def sub_marks_strip_stars
        findall_marks_marked_tokens split: option.splits)

text \<open>
  C3. \<^verbatim>\<open>maybeStripMarks\<close> returns the text unchanged when the caller asked for the
  marks, and otherwise the text with the star stripped from every marked token; in both
  cases a configured store receives every marked token, tagged with the pair, and
  nothing else changes. The caller asked for the marks when \<^verbatim>\<open>markUnknown\<close> is
  \<^verbatim>\<open>yes\<close>, \<^verbatim>\<open>true\<close> or \<^verbatim>\<open>1\<close>: that decides the text a successful
  \<^verbatim>\<open>translateAndRespond\<close> sends.
\<close>

theorem maybeStripMarks_spec:
  "maybeStripMarks st markUnknown pair translated =
     (if markUnknown then translated else strip_stars translated,
      case missingFreqsDb st of
        None \<Rightarrow> st
      | Some db \<Rightarrow>
          st\<lparr>missingFreqsDb :=
               Some (db @ map (\<lambda>token. (token, fst pair @ ''-'' @ snd pair))
                             (marked_tokens translated))\<rparr>)
   \<and> (fst (translateAndRespond st w pair p q mu) = Inr () \<longrightarrow>
        (\<exists>translated. translate w p q = Inr translated \<and>
           sent (snd (translateAndRespond st w pair p q mu))
             = Some (if mu = ''yes'' \<or> mu = ''true'' \<or> mu = ''1''
                     then translated else strip_stars translated)))"
proof (intro conjI impI)
  show "maybeStripMarks st markUnknown pair translated =
     (if markUnknown then translated else strip_stars translated,
      case missingFreqsDb st of
        None \<Rightarrow> st
      | Some db \<Rightarrow>
          st\<lparr>missingFreqsDb :=
               Some (db @ map (\<lambda>token. (token, fst pair @ ''-'' @ snd pair))
                             (marked_tokens translated))\<rparr>)"
    by (rule maybeStripMarks_eq)
next
  assume ok: "fst (translateAndRespond st w pair p q mu) = Inr ()"
  then obtain translated where t: "translate w p q = Inr translated"
    by (cases "translate w p q") (auto simp: translateAndRespond_def Let_def)
  let ?st1 = "touched (notePairUsage st pair) (pid p) (touch w)"
  obtain r st2 where l: "logAfterTranslation ?st1 (now_before w) (int (length q))
                           (now_after w) (now_oldest w) (now_check w) = (r, st2)"
    by (cases "logAfterTranslation ?st1 (now_before w) (int (length q))
                           (now_after w) (now_oldest w) (now_check w)")
  from ok t l obtain u where r: "r = Inr u"
    by (cases r) (auto simp: translateAndRespond_def Let_def)
  have "sent (snd (translateAndRespond st w pair p q mu))
          = Some (if mu = ''yes'' \<or> mu = ''true'' \<or> mu = ''1''
                  then translated else strip_stars translated)"
    using t l r
    by (simp add: translateAndRespond_def Let_def maybeStripMarks_eq cleanPairs_sent
          sendResponse_def split: option.splits)
  with t show "\<exists>translated. translate w p q = Inr translated \<and>
           sent (snd (translateAndRespond st w pair p q mu))
             = Some (if mu = ''yes'' \<or> mu = ''true'' \<or> mu = ''1''
                     then translated else strip_stars translated)"
    by blast
qed

theorem maybeStripMarks_spec_witness:
  "fst (translateAndRespond server_ex echo_world eng_spa (pipe 1 0 0 0) ''*foo bar'' ''no'') = Inr ()
   \<and> sent (snd (translateAndRespond server_ex echo_world eng_spa (pipe 1 0 0 0) ''*foo bar'' ''no''))
       = Some ''foo bar''
   \<and> maybeStripMarks server_ex False eng_spa ''*foo bar''
       = (''foo bar'', server_ex\<lparr>missingFreqsDb := Some [(''foo'', ''eng-spa'')]\<rparr>)
   \<and> maybeStripMarks server_ex True eng_spa ''*foo bar''
       = (''*foo bar'', server_ex\<lparr>missingFreqsDb := Some [(''foo'', ''eng-spa'')]\<rparr>)"
proof -
  have db: "missingFreqsDb server_ex = Some []" by (simp add: server_ex_def)
  have m: "mark_char CHR ''f''" "mark_char CHR ''o''" "\<not> mark_char CHR '' ''"
    by (simp_all add: mark_char_def)
  have ok: "fst (translateAndRespond server_ex echo_world eng_spa (pipe 1 0 0 0) ''*foo bar'' ''no'')
              = Inr ()"
    by (simp add: translateAndRespond_def Let_def echo_world_def logAfterTranslation_def
          touched_def notePairUsage_def server_ex_def initial_def split: prod.splits)
  have t: "translate echo_world (pipe 1 0 0 0) ''*foo bar'' = Inr ''*foo bar''"
    by (simp add: echo_world_def)
  note spec = maybeStripMarks_spec[of server_ex _ eng_spa "''*foo bar''" echo_world "pipe 1 0 0 0"
      "''*foo bar''" "''no''"]
  from spec[of True] ok t
  have s: "sent (snd (translateAndRespond server_ex echo_world eng_spa (pipe 1 0 0 0) ''*foo bar'' ''no''))
             = Some ''foo bar''"
    by (simp add: m)
  from spec[of False] have f: "maybeStripMarks server_ex False eng_spa ''*foo bar''
       = (''foo bar'', server_ex\<lparr>missingFreqsDb := Some [(''foo'', ''eng-spa'')]\<rparr>)"
    by (simp add: m db eng_spa_def)
  from spec[of True] have y: "maybeStripMarks server_ex True eng_spa ''*foo bar''
       = (''*foo bar'', server_ex\<lparr>missingFreqsDb := Some [(''foo'', ''eng-spa'')]\<rparr>)"
    by (simp add: m db eng_spa_def)
  from ok s f y show ?thesis by blast
qed

subsection \<open>The start-up check\<close>

lemma up_U: "ascii_upper c = CHR ''U'' \<longleftrightarrow> c = CHR ''U'' \<or> c = CHR ''u''"
  by (auto simp: ascii_upper_def split: if_splits)
lemma up_T: "ascii_upper c = CHR ''T'' \<longleftrightarrow> c = CHR ''T'' \<or> c = CHR ''t''"
  by (auto simp: ascii_upper_def split: if_splits)
lemma up_F: "ascii_upper c = CHR ''F'' \<longleftrightarrow> c = CHR ''F'' \<or> c = CHR ''f''"
  by (auto simp: ascii_upper_def split: if_splits)
lemma up_dash: "ascii_upper c = CHR ''-'' \<longleftrightarrow> c = CHR ''-''"
  by (auto simp: ascii_upper_def split: if_splits)
lemma up_8: "ascii_upper c = CHR ''8'' \<longleftrightarrow> c = CHR ''8''"
  by (auto simp: ascii_upper_def split: if_splits)

lemma match_u8_iff:
  "match_u8 s \<longleftrightarrow> map ascii_upper (take 4 s) = ''UTF8'' \<or> map ascii_upper (take 5 s) = ''UTF-8''"
proof (cases s)
  case Nil then show ?thesis by simp
next
  case (Cons a s1)
  show ?thesis
  proof (cases s1)
    case Nil with Cons show ?thesis by simp
  next
    case (Cons b s2)
    note c2 = this
    show ?thesis
    proof (cases s2)
      case Nil with \<open>s = a # s1\<close> c2 show ?thesis by simp
    next
      case (Cons c s3)
      note c3 = this
      show ?thesis
      proof (cases s3)
        case Nil with \<open>s = a # s1\<close> c2 c3 show ?thesis by simp
      next
        case (Cons d s4)
        note c4 = this
        show ?thesis
        proof (cases s4)
          case Nil with \<open>s = a # s1\<close> c2 c3 c4 show ?thesis
            by (auto simp: ci_def up_U up_T up_F up_dash up_8)
        next
          case (Cons e s5)
          with \<open>s = a # s1\<close> c2 c3 c4 show ?thesis
            by (auto simp: ci_def up_U up_T up_F up_dash up_8)
        qed
      qed
    qed
  qed
qed

lemma search_u8_iff: "search_u8 s \<longleftrightarrow> (\<exists>i < length s. match_u8 (drop i s))"
proof (induction s)
  case Nil then show ?case by simp
next
  case (Cons c cs)
  have "(\<exists>i < length (c # cs). match_u8 (drop i (c # cs)))
        \<longleftrightarrow> match_u8 (c # cs) \<or> (\<exists>i < length cs. match_u8 (drop i cs))"
    by (simp add: Ex_less_Suc2)
  with Cons show ?case by simp
qed

lemma search_u8_contains: "search_u8 s = contains_utf8 s"
  by (simp add: search_u8_iff contains_utf8_def list_ex_iff match_u8_iff Bex_def)

text \<open>
  C8. \<^verbatim>\<open>sanity_check\<close> exits with status 1 when neither \<^verbatim>\<open>LANG\<close> nor \<^verbatim>\<open>LC_ALL\<close> contains
  \<^verbatim>\<open>UTF8\<close> or \<^verbatim>\<open>UTF-8\<close> in any mix of upper and lower case (a variable that is not set
  counts as empty), and returns otherwise.
\<close>

theorem sanity_check_utf8:
  "sanity_check environ =
     (if contains_utf8 (case environ ''LANG'' of None \<Rightarrow> [] | Some v \<Rightarrow> v)
         \<or> contains_utf8 (case environ ''LC_ALL'' of None \<Rightarrow> [] | Some v \<Rightarrow> v)
      then Inr () else Inl (SystemExit 1))"
  by (simp add: sanity_check_def search_u8_contains)

theorem sanity_check_utf8_witness:
  "sanity_check [''LANG'' \<mapsto> ''en_US.utf8''] = Inr ()
   \<and> sanity_check [''LC_ALL'' \<mapsto> ''nb_NO.UTF-8''] = Inr ()
   \<and> sanity_check [''LANG'' \<mapsto> ''C''] = Inl (SystemExit 1)
   \<and> sanity_check Map.empty = Inl (SystemExit 1)"
  using sanity_check_utf8[of "[''LANG'' \<mapsto> ''en_US.utf8'']"]
        sanity_check_utf8[of "[''LC_ALL'' \<mapsto> ''nb_NO.UTF-8'']"]
        sanity_check_utf8[of "[''LANG'' \<mapsto> ''C'']"]
        sanity_check_utf8[of Map.empty]
  by (simp add: search_u8_contains[symmetric] ci_def)

subsection \<open>Starting pipelines\<close>

lemma pool_update:
  "pool (st\<lparr>pipelines := AList.update k v (pipelines st)\<rparr>) k' = (if k' = k then v else pool st k')"
  by (simp add: pool_def update_conv')

lemma getPipeCmds_frame:
  "getPipeCmds st l1 l2 parse = (r, st') \<Longrightarrow>
     pipelines st' = pipelines st \<and> max_pipes_per_pair st' = max_pipes_per_pair st
     \<and> pipelines_holding st' = pipelines_holding st \<and> stats_useCount st' = stats_useCount st
     \<and> stats_timing st' = stats_timing st \<and> status st' = status st"
  by (auto simp: getPipeCmds_def split: option.splits sum.splits)

lemma getPipeCmds_pipelines_upd:
  "getPipeCmds (st\<lparr>pipelines := ps\<rparr>) l1 l2 parse =
     (fst (getPipeCmds st l1 l2 parse), (snd (getPipeCmds st l1 l2 parse))\<lparr>pipelines := ps\<rparr>)"
  by (auto simp: getPipeCmds_def split: option.splits sum.splits)

lemma first_pipe_pool:
  "pool st pair = q # rest \<Longrightarrow> first_pipe st pair = Inr q"
  by (auto simp: first_pipe_def pool_def split: option.splits list.splits)

lemma shouldStartPipe_iff:
  "shouldStartPipe st l1 l2 \<longleftrightarrow>
     pool st (l1, l2) = [] \<or>
     (\<exists>min_p rest. pool st (l1, l2) = min_p # rest
        \<and> int (length (pool st (l1, l2))) < max_pipes_per_pair st
        \<and> users min_p > max_users_per_pipe st)"
  by (auto simp: shouldStartPipe_def split: list.splits)

lemma getPipeline_keep:
  assumes "\<not> shouldStartPipe st l1 l2"
  shows "\<exists>min_p rest. pool st (l1, l2) = min_p # rest
           \<and> getPipeline lt st (l1, l2) parse mk = (Inr min_p, st)"
proof -
  from assms obtain min_p rest where p: "pool st (l1, l2) = min_p # rest"
    by (auto simp: shouldStartPipe_def split: list.splits)
  then show ?thesis using assms by (simp add: getPipeline_def first_pipe_pool)
qed

lemma getPipeline_start:
  assumes s: "shouldStartPipe st l1 l2"
    and c: "fst (getPipeCmds st l1 l2 parse) = Inr cmds"
    and m: "mk cmds = Inr p"
  shows "getPipeline lt st (l1, l2) parse mk =
           (first_pipe ((snd (getPipeCmds st l1 l2 parse))
                          \<lparr>pipelines := AList.update (l1, l2) (heappush lt (pool st (l1, l2)) p) (pipelines st)\<rparr>) (l1, l2),
            (snd (getPipeCmds st l1 l2 parse))
              \<lparr>pipelines := AList.update (l1, l2) (heappush lt (pool st (l1, l2)) p) (pipelines st)\<rparr>)"
proof (cases "map_of (pipelines st) (l1, l2)")
  case None
  then have e: "pool st (l1, l2) = []" by (simp add: pool_def)
  show ?thesis using s c m None
    by (simp add: getPipeline_def Let_def getPipeCmds_pipelines_upd e update_conv'
          split: prod.splits)
next
  case (Some pipes)
  then have e: "pool st (l1, l2) = pipes" by (simp add: pool_def)
  obtain r st' where g: "getPipeCmds st l1 l2 parse = (r, st')" by (cases "getPipeCmds st l1 l2 parse")
  from getPipeCmds_frame[OF g] have f: "pipelines st' = pipelines st" by simp
  show ?thesis using s c m Some g f
    by (simp add: getPipeline_def Let_def e)
qed

lemma pool_pipelines_cong: "pipelines st' = pipelines st \<Longrightarrow> pool st' pair = pool st pair"
  by (simp add: pool_def)

lemma getPipeline_pools:
  "pool (snd (getPipeline lt st pair parse mk)) pair' = pool st pair'
   \<or> (pair' = pair \<and> shouldStartPipe st (fst pair) (snd pair)
       \<and> (\<exists>p. pool (snd (getPipeline lt st pair parse mk)) pair' = heappush lt (pool st pair) p))"
proof (cases pair)
  case (Pair l1 l2)
  show ?thesis
  proof (cases "shouldStartPipe st l1 l2")
    case False
    from getPipeline_keep[OF False, of lt parse mk] show ?thesis using Pair by auto
  next
    case True
    define st1 where "st1 = (if map_of (pipelines st) pair = None
                      then st\<lparr>pipelines := AList.update pair [] (pipelines st)\<rparr> else st)"
    have p1: "pool st1 k = pool st k" for k
      by (auto simp: st1_def pool_def update_conv')
    obtain r st2 where g: "getPipeCmds st1 l1 l2 parse = (r, st2)"
      by (cases "getPipeCmds st1 l1 l2 parse")
    from getPipeCmds_frame[OF g] have f: "pipelines st2 = pipelines st1" by simp
    have p2: "pool st2 k = pool st k" for k
      using pool_pipelines_cong[OF f] p1 by simp
    have gp: "getPipeline lt st pair parse mk =
       (case r of Inl e \<Rightarrow> (Inl e, st2)
        | Inr cmds \<Rightarrow>
            (case mk cmds of
               Inl e \<Rightarrow> (Inl e, st2)
             | Inr p \<Rightarrow>
                 (case map_of (pipelines st2) pair of
                    None \<Rightarrow> (Inl KeyError, st2)
                  | Some pipes \<Rightarrow>
                      (let st3 = st2\<lparr>pipelines :=
                              AList.update pair (heappush lt pipes p) (pipelines st2)\<rparr>
                       in (first_pipe st3 pair, st3)))))"
    proof -
      have "getPipeline lt st pair parse mk =
         (case getPipeCmds st1 l1 l2 parse of
            (Inl e, st2) \<Rightarrow> (Inl e, st2)
          | (Inr cmds, st2) \<Rightarrow>
              (case mk cmds of
                 Inl e \<Rightarrow> (Inl e, st2)
               | Inr p \<Rightarrow>
                   (case map_of (pipelines st2) pair of
                      None \<Rightarrow> (Inl KeyError, st2)
                    | Some pipes \<Rightarrow>
                        (let st3 = st2\<lparr>pipelines :=
                                AList.update pair (heappush lt pipes p) (pipelines st2)\<rparr>
                         in (first_pipe st3 pair, st3)))))"
        unfolding getPipeline_def st1_def Pair using True by (simp only: prod.case if_True Let_def)
      then show ?thesis by (simp add: g)
    qed
    show ?thesis
    proof (cases r)
      case (Inl e)
      then show ?thesis using gp p2 by simp
    next
      case (Inr cmds)
      note r = this
      show ?thesis
      proof (cases "mk cmds")
        case (Inl e)
        then show ?thesis using gp r p2 by simp
      next
        case (Inr p)
        show ?thesis
        proof (cases "map_of (pipelines st2) pair")
          case None
          then show ?thesis using gp r Inr p2 by simp
        next
          case (Some pipes)
          then have pp: "pool st pair = pipes" using p2[of pair] by (simp add: pool_def)
          have "snd (getPipeline lt st pair parse mk)
                  = st2\<lparr>pipelines := AList.update pair (heappush lt pipes p) (pipelines st2)\<rparr>"
            using gp r Inr Some by (simp add: Let_def)
          then have "pool (snd (getPipeline lt st pair parse mk)) pair'
                  = (if pair' = pair then heappush lt pipes p else pool st pair')"
            by (simp add: pool_update p2)
          then show ?thesis using True Pair pp by auto
        qed
      qed
    qed
  qed
qed

lemma getPipeline_config:
  "max_pipes_per_pair (snd (getPipeline lt st pair parse mk)) = max_pipes_per_pair st"
  by (auto simp: getPipeline_def getPipeCmds_def Let_def split: prod.splits sum.splits option.splits)

lemma pool_touched: "pool (touched st i f) pair =
    map (\<lambda>p. if pid p = i then (f p)\<lparr>pid := i\<rparr> else p) (pool st pair)"
  by (simp add: pool_def touched_def Let_def map_of_map_pools[of "\<lambda>k. map _"] split: option.splits)

lemma length_pool_cleanPairs: "length (pool (cleanPairs lt st clock) pair) \<le> length (pool st pair)"
  by (simp add: pool_cleanPairs length_heapify kept_def)

lemma cleanPairs_config: "max_pipes_per_pair (cleanPairs lt st clock) = max_pipes_per_pair st"
  by (simp add: cleanPairs_def split: prod.splits)

lemma touched_config: "max_pipes_per_pair (touched st i f) = max_pipes_per_pair st"
  by (simp add: touched_def Let_def)

lemma step_bound:
  assumes "\<forall>pair. int (length (pool st pair)) \<le> max 1 (max_pipes_per_pair st)"
  shows "max_pipes_per_pair (step lt st x) = max_pipes_per_pair st
         \<and> (\<forall>pair. int (length (pool (step lt st x) pair)) \<le> max 1 (max_pipes_per_pair st))"
proof (cases x)
  case (GetPipeline pr parse mk)
  have "int (length (pool (snd (getPipeline lt st pr parse mk)) pair)) \<le> max 1 (max_pipes_per_pair st)"
    for pair
  proof -
    have b: "int (length (pool st pair)) \<le> max 1 (max_pipes_per_pair st)"
      using assms by blast
    from getPipeline_pools[of lt st pr parse mk pair] show ?thesis
    proof
      assume "pool (snd (getPipeline lt st pr parse mk)) pair = pool st pair"
      with b show ?thesis by simp
    next
      assume a: "pair = pr \<and> shouldStartPipe st (fst pr) (snd pr)
         \<and> (\<exists>p. pool (snd (getPipeline lt st pr parse mk)) pair = heappush lt (pool st pr) p)"
      then have l: "length (pool (snd (getPipeline lt st pr parse mk)) pair) = Suc (length (pool st pr))"
        by (auto simp: length_heappush)
      from a have "pool st pr = [] \<or> int (length (pool st pr)) < max_pipes_per_pair st"
        using shouldStartPipe_iff[of st "fst pr" "snd pr"] by auto
      with l show ?thesis by auto
    qed
  qed
  then show ?thesis using GetPipeline by (simp add: getPipeline_config)
next
  case (CleanPairs clock)
  have "int (length (pool (cleanPairs lt st clock) pair)) \<le> max 1 (max_pipes_per_pair st)" for pair
    using length_pool_cleanPairs[of lt st clock pair] assms[rule_format, of pair] by linarith
  then show ?thesis using CleanPairs by (simp add: cleanPairs_config)
next
  case (Touch i f)
  then show ?thesis using assms by (simp add: pool_touched touched_config)
qed

lemma run_bound:
  "\<forall>pair. int (length (pool st pair)) \<le> max 1 (max_pipes_per_pair st) \<Longrightarrow>
     max_pipes_per_pair (run lt st ops) = max_pipes_per_pair st
     \<and> (\<forall>pair. int (length (pool (run lt st ops) pair)) \<le> max 1 (max_pipes_per_pair st))"
proof (induction ops arbitrary: st)
  case Nil
  then show ?case by (simp add: run_def)
next
  case (Cons x ops)
  from step_bound[OF Cons.prems, of lt x]
  have c: "max_pipes_per_pair (step lt st x) = max_pipes_per_pair st"
    and b: "\<forall>pair. int (length (pool (step lt st x) pair)) \<le> max 1 (max_pipes_per_pair (step lt st x))"
    by simp_all
  from Cons.IH[OF b] c show ?case by (simp add: run_def)
qed

lemma heappush_Nil: "heappush lt [] x = [x]"
  by (simp add: heappush_def siftdown_def siftdown_loop.simps)

text \<open>
  C1, as the code has it. \<^verbatim>\<open>shouldStartPipe\<close> is true exactly when the pool of the pair
  is empty or absent, or the pool has fewer than \<open>max_pipes_per_pair\<close> pipes and its
  first pipe (the root of the heap) has more than \<open>max_users_per_pipe\<close> users. Then
  \<^verbatim>\<open>getPipeline\<close>, when the mode parses and the pipeline starts, pushes the new pipeline
  on the pool and returns the root of the heap; otherwise it changes nothing and
  returns the first pipe of the pool.
\<close>

theorem shouldStartPipe_spec:
  "(shouldStartPipe st l1 l2 \<longleftrightarrow>
      pool st (l1, l2) = [] \<or>
      (\<exists>min_p rest. pool st (l1, l2) = min_p # rest
         \<and> int (length (pool st (l1, l2))) < max_pipes_per_pair st
         \<and> users min_p > max_users_per_pipe st))
   \<and> (shouldStartPipe st l1 l2 \<longrightarrow> fst (getPipeCmds st l1 l2 parse) = Inr cmds \<longrightarrow> mk cmds = Inr p \<longrightarrow>
        pool (snd (getPipeline lt st (l1, l2) parse mk)) (l1, l2) = heappush lt (pool st (l1, l2)) p
        \<and> mset (pool (snd (getPipeline lt st (l1, l2) parse mk)) (l1, l2))
            = add_mset p (mset (pool st (l1, l2)))
        \<and> (\<exists>q rest. heappush lt (pool st (l1, l2)) p = q # rest
              \<and> fst (getPipeline lt st (l1, l2) parse mk) = Inr q))
   \<and> (\<not> shouldStartPipe st l1 l2 \<longrightarrow>
        (\<exists>min_p rest. pool st (l1, l2) = min_p # rest
           \<and> getPipeline lt st (l1, l2) parse mk = (Inr min_p, st)))"
proof (intro conjI impI)
  show "shouldStartPipe st l1 l2 \<longleftrightarrow>
      pool st (l1, l2) = [] \<or>
      (\<exists>min_p rest. pool st (l1, l2) = min_p # rest
         \<and> int (length (pool st (l1, l2))) < max_pipes_per_pair st
         \<and> users min_p > max_users_per_pipe st)"
    by (rule shouldStartPipe_iff)
next
  assume n: "\<not> shouldStartPipe st l1 l2"
  show "\<exists>min_p rest. pool st (l1, l2) = min_p # rest
           \<and> getPipeline lt st (l1, l2) parse mk = (Inr min_p, st)"
    by (rule getPipeline_keep[OF n])
next
  assume s: "shouldStartPipe st l1 l2" and c: "fst (getPipeCmds st l1 l2 parse) = Inr cmds"
    and m: "mk cmds = Inr p"
  let ?st3 = "(snd (getPipeCmds st l1 l2 parse))
      \<lparr>pipelines := AList.update (l1, l2) (heappush lt (pool st (l1, l2)) p) (pipelines st)\<rparr>"
  have g: "getPipeline lt st (l1, l2) parse mk = (first_pipe ?st3 (l1, l2), ?st3)"
    by (rule getPipeline_start[where mk=mk and cmds=cmds, OF s c m])
  have p3: "pool ?st3 (l1, l2) = heappush lt (pool st (l1, l2)) p"
    by (simp add: pool_def update_conv')
  show a: "pool (snd (getPipeline lt st (l1, l2) parse mk)) (l1, l2) = heappush lt (pool st (l1, l2)) p"
    by (simp only: g snd_conv p3)
  show "mset (pool (snd (getPipeline lt st (l1, l2) parse mk)) (l1, l2))
            = add_mset p (mset (pool st (l1, l2)))"
    by (simp only: a mset_heappush)
  obtain q rest where h: "heappush lt (pool st (l1, l2)) p = q # rest"
    using length_heappush[of lt "pool st (l1, l2)" p]
    by (cases "heappush lt (pool st (l1, l2)) p") auto
  have "pool ?st3 (l1, l2) = q # rest" using p3 h by (rule trans)
  then have "first_pipe ?st3 (l1, l2) = Inr q" by (rule first_pipe_pool)
  then have "fst (getPipeline lt st (l1, l2) parse mk) = Inr q" by (simp only: g fst_conv)
  with h show "\<exists>q rest. heappush lt (pool st (l1, l2)) p = q # rest
              \<and> fst (getPipeline lt st (l1, l2) parse mk) = Inr q" by blast
qed

lemma heappush_busy: "heappush users_lt [pipe 1 6 0 0] (pipe 2 0 0 0) = [pipe 2 0 0 0, pipe 1 6 0 0]"
  by (simp add: heappush_def siftdown_def siftdown_loop.simps[of _ _ _ "Suc 0"]
        siftdown_loop.simps[of _ _ _ 0] users_lt_def pipe_def Let_def)

theorem shouldStartPipe_spec_witness:
  "shouldStartPipe busy_ex ''eng'' ''spa''
   \<and> fst (getPipeCmds busy_ex ''eng'' ''spa'' (\<lambda>path. Inr ())) = Inr ()
   \<and> pool (snd (getPipeline users_lt busy_ex (''eng'', ''spa'') (\<lambda>path. Inr ()) (\<lambda>cmds. Inr (pipe 2 0 0 0))))
        (''eng'', ''spa'') = [pipe 2 0 0 0, pipe 1 6 0 0]
   \<and> \<not> shouldStartPipe full_ex ''eng'' ''spa''
   \<and> getPipeline users_lt full_ex (''eng'', ''spa'') (\<lambda>path. Inr ()) (\<lambda>cmds. Inr (pipe 2 0 0 0))
       = (Inr (pipe 1 5 0 0), full_ex)"
proof -
  have pb: "pool busy_ex (''eng'', ''spa'') = [pipe 1 6 0 0]"
    by (simp add: busy_ex_def pool_def eng_spa_def)
  have pf: "pool full_ex (''eng'', ''spa'') = [pipe 1 5 0 0]"
    by (simp add: full_ex_def pool_def eng_spa_def)
  have s: "shouldStartPipe busy_ex ''eng'' ''spa''"
    by (simp add: shouldStartPipe_def pb) (simp add: busy_ex_def server_ex_def initial_def pipe_def)
  have c: "fst (getPipeCmds busy_ex ''eng'' ''spa'' (\<lambda>path. Inr ())) = Inr ()"
    by (simp add: getPipeCmds_def busy_ex_def server_ex_def initial_def)
  have n: "\<not> shouldStartPipe full_ex ''eng'' ''spa''"
    by (simp add: shouldStartPipe_def pf) (simp add: full_ex_def initial_def pipe_def)
  from shouldStartPipe_spec[of busy_ex "''eng''" "''spa''" "\<lambda>path. Inr ()" "()" "\<lambda>cmds. Inr (pipe 2 0 0 0)"
        "pipe 2 0 0 0" users_lt] s c
  have "pool (snd (getPipeline users_lt busy_ex (''eng'', ''spa'') (\<lambda>path. Inr ()) (\<lambda>cmds. Inr (pipe 2 0 0 0))))
        (''eng'', ''spa'') = heappush users_lt (pool busy_ex (''eng'', ''spa'')) (pipe 2 0 0 0)"
    by blast
  then have a: "pool (snd (getPipeline users_lt busy_ex (''eng'', ''spa'') (\<lambda>path. Inr ()) (\<lambda>cmds. Inr (pipe 2 0 0 0))))
        (''eng'', ''spa'') = [pipe 2 0 0 0, pipe 1 6 0 0]"
    by (simp only: pb heappush_busy)
  from shouldStartPipe_spec[of full_ex "''eng''" "''spa''" "\<lambda>path. Inr ()" "()" "\<lambda>cmds. Inr (pipe 2 0 0 0)"
        "pipe 2 0 0 0" users_lt] n
  obtain min_p rest where "pool full_ex (''eng'', ''spa'') = min_p # rest"
    and "getPipeline users_lt full_ex (''eng'', ''spa'') (\<lambda>path. Inr ()) (\<lambda>cmds. Inr (pipe 2 0 0 0))
           = (Inr min_p, full_ex)"
    by blast
  then have b: "getPipeline users_lt full_ex (''eng'', ''spa'') (\<lambda>path. Inr ()) (\<lambda>cmds. Inr (pipe 2 0 0 0))
       = (Inr (pipe 1 5 0 0), full_ex)"
    by (simp add: pf)
  from s c a n b show ?thesis by blast
qed

text \<open>
  A pool of one pipe with exactly \<open>max_users_per_pipe = 5\<close> users and room for a second
  pipe: no pipe is started.
\<close>

theorem shouldStartPipe_spec_counterexample:
  "\<not> shouldStartPipe full_ex ''eng'' ''spa''
   \<and> pool full_ex (''eng'', ''spa'') = [pipe 1 5 0 0]
   \<and> users (pipe 1 5 0 0) \<ge> max_users_per_pipe full_ex
   \<and> int (length (pool full_ex (''eng'', ''spa''))) < max_pipes_per_pair full_ex"
  by (simp add: shouldStartPipe_def full_ex_def pool_def eng_spa_def initial_def pipe_def)

subsection \<open>The size of a pool\<close>

text \<open>
  C6, as the code has it. Along every sequence of \<^verbatim>\<open>getPipeline\<close> and \<^verbatim>\<open>cleanPairs\<close>
  calls and of changes to the counters of pipelines, from pools within the bound (the
  empty pools of a new server are), no pool grows beyond \<open>max 1 max_pipes_per_pair\<close>,
  which is \<open>max_pipes_per_pair\<close> when that is at least 1.
\<close>

theorem pool_size_bounded:
  assumes "\<forall>pair. int (length (pool st pair)) \<le> max 1 (max_pipes_per_pair st)"
  shows "int (length (pool (run lt st ops) pair)) \<le> max 1 (max_pipes_per_pair st)
         \<and> (1 \<le> max_pipes_per_pair st \<longrightarrow>
              int (length (pool (run lt st ops) pair)) \<le> max_pipes_per_pair st)
         \<and> max_pipes_per_pair (run lt st ops) = max_pipes_per_pair st"
proof -
  note r = run_bound[OF assms, of lt ops]
  from r have c: "max_pipes_per_pair (run lt st ops) = max_pipes_per_pair st" by simp
  from r have b: "int (length (pool (run lt st ops) pair)) \<le> max 1 (max_pipes_per_pair st)"
    by blast
  from b c show ?thesis by auto
qed

theorem pool_size_bounded_witness:
  "(\<forall>pair. int (length (pool server_ex pair)) \<le> max 1 (max_pipes_per_pair server_ex))
   \<and> 1 \<le> max_pipes_per_pair server_ex
   \<and> int (length (pool (run users_lt server_ex ops_ex) eng_spa)) \<le> max_pipes_per_pair server_ex"
proof -
  have h: "\<forall>pair. int (length (pool server_ex pair)) \<le> max 1 (max_pipes_per_pair server_ex)"
    by (simp add: pool_def server_ex_def initial_def)
  have m: "1 \<le> max_pipes_per_pair server_ex" by (simp add: server_ex_def initial_def)
  from pool_size_bounded[OF h, of users_lt ops_ex eng_spa] m h show ?thesis by blast
qed

text \<open>
  With \<open>max_pipes_per_pair = 0\<close> the first request for a pair still starts a pipe.
\<close>

theorem pool_size_bounded_counterexample:
  "pipelines zero_ex = []
   \<and> int (length (pool (run users_lt zero_ex
            [GetPipeline eng_spa (\<lambda>path. Inr ()) (\<lambda>cmds. Inr (pipe 1 0 0 0))]) eng_spa))
       > max_pipes_per_pair zero_ex"
  by (simp add: run_def getPipeline_def shouldStartPipe_def pool_def getPipeCmds_def Let_def
        zero_ex_def server_ex_def initial_def eng_spa_def update_conv' heappush_Nil)

subsection \<open>Refusing a pair\<close>

lemma split_on_no_sep: "sep \<notin> set s \<Longrightarrow> split_on sep s = [s]"
proof -
  assume a: "sep \<notin> set s"
  then have d: "dropWhile (\<lambda>c. c \<noteq> sep) s = []" and t: "takeWhile (\<lambda>c. c \<noteq> sep) s = s"
    by (auto simp: dropWhile_eq_Nil_conv takeWhile_eq_all_conv)
  show ?thesis by (subst split_on.simps) (simp only: d t list.case)
qed

lemma split_on_sep: "sep \<notin> set a \<Longrightarrow> split_on sep (a @ sep # b) = a # split_on sep b"
proof -
  assume a: "sep \<notin> set a"
  then have d: "dropWhile (\<lambda>c. c \<noteq> sep) (a @ sep # b) = sep # b"
    and t: "takeWhile (\<lambda>c. c \<noteq> sep) (a @ sep # b) = a"
    by (auto simp: dropWhile_append3 takeWhile_append2 dropWhile_append2 takeWhile_tail)
  show ?thesis by (subst split_on.simps) (simp only: d t list.case)
qed

lemma length_split_on: "length (split_on sep s) = Suc (count_list s sep)"
proof (induction sep s rule: split_on.induct)
  case (1 sep s)
  show ?case
  proof (cases "dropWhile (\<lambda>c. c \<noteq> sep) s")
    case Nil
    then have "sep \<notin> set s" by (auto simp: dropWhile_eq_Nil_conv)
    then show ?thesis by (simp add: split_on_no_sep)
  next
    case (Cons x rest)
    then have x: "x = sep" using hd_dropWhile[of "\<lambda>c. c \<noteq> sep" s] by auto
    have s: "s = takeWhile (\<lambda>c. c \<noteq> sep) s @ sep # rest"
      using takeWhile_dropWhile_id[of "\<lambda>c. c \<noteq> sep" s] Cons x by simp
    have n: "sep \<notin> set (takeWhile (\<lambda>c. c \<noteq> sep) s)" by (auto dest: set_takeWhileD)
    have "count_list s sep = count_list (takeWhile (\<lambda>c. c \<noteq> sep) s @ sep # rest) sep"
      using s by simp
    also have "\<dots> = Suc (count_list rest sep)" using n by (simp add: count_list_0_iff)
    finally have c: "count_list s sep = Suc (count_list rest sep)" .
    have "split_on sep s = takeWhile (\<lambda>c. c \<noteq> sep) s # split_on sep rest"
      using Cons by (subst split_on.simps) simp
    then show ?thesis using "1.IH"[OF Cons] c by simp
  qed
qed

lemma split_eng_spa: "split_on CHR ''|'' ''eng|spa'' = [''eng'', ''spa'']"
  using split_on_sep[of "CHR ''|''" "''eng''" "''spa''"] by (simp add: split_on_no_sep)

lemma logAfterTranslation_400:
  "logAfterTranslation (send_error st 400 expl) b n a t1 t2 = (Inr (), send_error st 400 expl)"
  by (simp add: logAfterTranslation_def send_error_def)

lemma length_two: "length xs = 2 \<Longrightarrow> \<exists>a b. xs = [a, b]"
proof -
  assume l: "length xs = 2"
  then obtain a ys where x: "xs = a # ys" by (cases xs) auto
  with l obtain b zs where y: "ys = b # zs" by (cases ys) auto
  with l x have "zs = []" by simp
  with x y show ?thesis by blast
qed

lemma getPairOrError_two:
  assumes p: "split_on CHR ''|'' langpair = [c1, c2]"
  shows "getPairOrError st w langpair n =
       (if pairs st (toAlpha3Code w c1 @ ''-'' @ toAlpha3Code w c2) = None
        then (Inr None, send_error st 400 ''That pair is not installed'')
        else (Inr (Some (toAlpha3Code w c1, toAlpha3Code w c2)), st))"
  by (simp add: getPairOrError_def p Let_def logAfterTranslation_400)

lemma getPairOrError_not_two:
  assumes n2: "length (split_on CHR ''|'' langpair) \<noteq> 2"
  shows "getPairOrError st w langpair n =
       (Inr None, send_error st 400 ''That pair is invalid, use e.g. eng|spa'')"
proof (cases "split_on CHR ''|'' langpair")
  case Nil
  then show ?thesis by (simp add: getPairOrError_def Let_def logAfterTranslation_400)
next
  case (Cons a ys)
  note c1 = this
  show ?thesis
  proof (cases ys)
    case Nil
    with c1 show ?thesis by (simp add: getPairOrError_def Let_def logAfterTranslation_400)
  next
    case (Cons b zs)
    note c2 = this
    show ?thesis
    proof (cases zs)
      case Nil
      with c1 c2 n2 show ?thesis by simp
    next
      case (Cons c us)
      with c1 c2 show ?thesis by (simp add: getPairOrError_def Let_def logAfterTranslation_400)
    qed
  qed
qed

lemma getPairOrError_world:
  "getPairOrError st (w\<lparr>translate := t, makePipeline := mk, parseModeFile := ps, touch := f\<rparr>) langpair n
     = getPairOrError st w langpair n"
proof (cases "length (split_on CHR ''|'' langpair) = 2")
  case False
  then show ?thesis by (simp add: getPairOrError_not_two)
next
  case True
  then obtain c1 c2 where p: "split_on CHR ''|'' langpair = [c1, c2]" using length_two by blast
  show ?thesis by (simp add: getPairOrError_two[OF p])
qed

lemma get_refused:
  assumes "arg_langpair req = Some langpair" "arg_q req = Some q"
    and "fst (getPairOrError st w langpair (int (length q))) = Inr None"
  shows "get st w req = (Inr (), snd (getPairOrError st w langpair (int (length q))))"
proof -
  obtain r st' where g: "getPairOrError st w langpair (int (length q)) = (r, st')"
    by (cases "getPairOrError st w langpair (int (length q))")
  from assms(3) g have r: "r = Inr None" by simp
  show ?thesis
    unfolding get_def by (simp only: assms(1) assms(2) g r option.case prod.case sum.case snd_conv)
qed

lemma gpe_shape:
  "(length (split_on CHR ''|'' langpair) \<noteq> 2
      \<and> getPairOrError st w langpair n
          = (Inr None, st\<lparr>status := 400, sent := Some ''That pair is invalid, use e.g. eng|spa''\<rparr>))
   \<or> (\<exists>c1 c2. split_on CHR ''|'' langpair = [c1, c2]
         \<and> pairs st (toAlpha3Code w c1 @ ''-'' @ toAlpha3Code w c2) = None
         \<and> getPairOrError st w langpair n
             = (Inr None, st\<lparr>status := 400, sent := Some ''That pair is not installed''\<rparr>))
   \<or> (\<exists>c1 c2. split_on CHR ''|'' langpair = [c1, c2]
         \<and> pairs st (toAlpha3Code w c1 @ ''-'' @ toAlpha3Code w c2) \<noteq> None
         \<and> getPairOrError st w langpair n
             = (Inr (Some (toAlpha3Code w c1, toAlpha3Code w c2)), st))"
proof (cases "length (split_on CHR ''|'' langpair) = 2")
  case False
  have "getPairOrError st w langpair n
          = (Inr None, st\<lparr>status := 400, sent := Some ''That pair is invalid, use e.g. eng|spa''\<rparr>)"
    using getPairOrError_not_two[OF False, of st w n] by (simp only: send_error_def)
  with False show ?thesis by blast
next
  case True
  then obtain c1 c2 where p: "split_on CHR ''|'' langpair = [c1, c2]" using length_two by blast
  show ?thesis
  proof (cases "pairs st (toAlpha3Code w c1 @ ''-'' @ toAlpha3Code w c2) = None")
    case True
    have "getPairOrError st w langpair n
             = (Inr None, st\<lparr>status := 400, sent := Some ''That pair is not installed''\<rparr>)"
      using getPairOrError_two[OF p, of st w n] True by (simp add: send_error_def)
    with p True show ?thesis by blast
  next
    case False
    have "getPairOrError st w langpair n
             = (Inr (Some (toAlpha3Code w c1, toAlpha3Code w c2)), st)"
      using getPairOrError_two[OF p, of st w n] False by simp
    with p False show ?thesis by blast
  qed
qed

lemma logAfterTranslation_useCount:
  "stats_useCount (snd (logAfterTranslation st b n a t1 t2)) = stats_useCount st"
  by (simp add: logAfterTranslation_def Let_def split: option.splits list.splits)

lemma cleanPairs_useCount: "stats_useCount (cleanPairs lt st clock) = stats_useCount st"
  by (simp add: cleanPairs_def split: prod.splits)

lemma touched_useCount: "stats_useCount (touched st i f) = stats_useCount st"
  by (simp add: touched_def Let_def)

lemma maybeStripMarks_useCount:
  "stats_useCount (snd (maybeStripMarks st m pair s)) = stats_useCount st"
  by (simp add: maybeStripMarks_def noteUnknownTokens_def Let_def split: option.splits)

lemma getPipeline_useCount:
  "stats_useCount (snd (getPipeline lt st pair parse mk)) = stats_useCount st"
  by (auto simp: getPipeline_def getPipeCmds_def Let_def split: prod.splits sum.splits option.splits)

lemma translateAndRespond_useCount:
  "stats_useCount (snd (translateAndRespond st w pair p q mu)) = stats_useCount (notePairUsage st pair)"
proof (cases "translate w p q")
  case (Inl e)
  then show ?thesis
    by (simp add: translateAndRespond_def Let_def touched_useCount)
next
  case (Inr translated)
  let ?st1 = "touched (notePairUsage st pair) (pid p) (touch w)"
  have u1: "stats_useCount ?st1 = stats_useCount (notePairUsage st pair)"
    by (simp add: touched_useCount)
  obtain r st2 where l: "logAfterTranslation ?st1 (now_before w) (int (length q))
                           (now_after w) (now_oldest w) (now_check w) = (r, st2)"
    by (cases "logAfterTranslation ?st1 (now_before w) (int (length q))
                           (now_after w) (now_oldest w) (now_check w)")
  have u2: "stats_useCount st2 = stats_useCount (notePairUsage st pair)"
    using logAfterTranslation_useCount[of ?st1 "now_before w" "int (length q)"
        "now_after w" "now_oldest w" "now_check w"] l u1 by simp
  show ?thesis
  proof (cases r)
    case (Inl e)
    then show ?thesis using Inr l u2 by (simp add: translateAndRespond_def Let_def)
  next
    case (Inr u)
    obtain tx st3 where m: "maybeStripMarks st2 (mu \<in> set [''yes'', ''true'', ''1'']) pair translated
                               = (tx, st3)"
      by (cases "maybeStripMarks st2 (mu \<in> set [''yes'', ''true'', ''1'']) pair translated")
    have u3: "stats_useCount st3 = stats_useCount (notePairUsage st pair)"
      using maybeStripMarks_useCount[of st2 "mu \<in> set [''yes'', ''true'', ''1'']" pair translated] m u2
      by simp
    have "snd (translateAndRespond st w pair p q mu)
            = cleanPairs (pipeline_lt w) (sendResponse st3 tx) (time_time w)"
      using \<open>translate w p q = Inr translated\<close> l Inr m
      by (simp add: translateAndRespond_def Let_def)
    then show ?thesis by (simp add: cleanPairs_useCount sendResponse_def u3)
  qed
qed

lemma get_useCount_eq:
  assumes l: "arg_langpair req = Some langpair" and q: "arg_q req = Some q"
  shows "stats_useCount (snd (get st w req)) =
     (case fst (getPairOrError st w langpair (int (length q))) of
        Inr (Some pair) \<Rightarrow>
          (case fst (getPipeline (pipeline_lt w) st pair (parseModeFile w) (makePipeline w)) of
             Inr pl \<Rightarrow> stats_useCount (notePairUsage st pair)
           | Inl e \<Rightarrow> stats_useCount st)
      | _ \<Rightarrow> stats_useCount st)"
proof -
  let ?n = "int (length q)"
  from gpe_shape[of langpair st w ?n]
  consider (refused) explanation where
      "getPairOrError st w langpair ?n = (Inr None, st\<lparr>status := 400, sent := Some explanation\<rparr>)"
    | (ok) c1 c2 where
      "getPairOrError st w langpair ?n = (Inr (Some (toAlpha3Code w c1, toAlpha3Code w c2)), st)"
    by blast
  then show ?thesis
  proof cases
    case refused
    then show ?thesis by (simp add: get_def l q)
  next
    case ok
    let ?pair = "(toAlpha3Code w c1, toAlpha3Code w c2)"
    obtain r st2 where g: "getPipeline (pipeline_lt w) st ?pair (parseModeFile w) (makePipeline w) = (r, st2)"
      by (cases "getPipeline (pipeline_lt w) st ?pair (parseModeFile w) (makePipeline w)")
    have u2: "stats_useCount st2 = stats_useCount st"
      using getPipeline_useCount[of "pipeline_lt w" st ?pair "parseModeFile w" "makePipeline w"] g
      by simp
    show ?thesis
    proof (cases r)
      case (Inl e)
      then show ?thesis using ok g u2 by (simp add: get_def l q)
    next
      case (Inr pl)
      have "get st w req = translateAndRespond st2 w ?pair pl q
              (case arg_markUnknown req of None \<Rightarrow> ''yes'' | Some m \<Rightarrow> m)"
        using ok g Inr by (simp add: get_def l q)
      then show ?thesis
        using ok g Inr u2 by (simp add: translateAndRespond_useCount notePairUsage_def)
    qed
  qed
qed

lemma ex_pair:
  "toAlpha3Code w = (\<lambda>code. code) \<Longrightarrow>
     getPairOrError server_ex w ''eng|spa'' n = (Inr (Some eng_spa), server_ex)"
  by (simp add: getPairOrError_two[OF split_eng_spa] server_ex_def eng_spa_def)

lemma ex_pipe:
  "fst (getPipeline users_lt server_ex eng_spa (\<lambda>path. Inr ()) (\<lambda>cmds. Inr (pipe 1 0 0 0)))
     = Inr (pipe 1 0 0 0)"
  by (simp add: getPipeline_def shouldStartPipe_def pool_def getPipeCmds_def Let_def first_pipe_def
        server_ex_def initial_def eng_spa_def update_conv' heappush_Nil)

lemma ex_worlds:
  "toAlpha3Code echo_world = (\<lambda>code. code)" "toAlpha3Code broken_world = (\<lambda>code. code)"
  "pipeline_lt echo_world = users_lt" "pipeline_lt broken_world = users_lt"
  "parseModeFile echo_world = (\<lambda>path. Inr ())" "parseModeFile broken_world = (\<lambda>path. Inr ())"
  "makePipeline echo_world = (\<lambda>cmds. Inr (pipe 1 0 0 0))"
  "makePipeline broken_world = (\<lambda>cmds. Inr (pipe 1 0 0 0))"
  by (simp_all add: echo_world_def broken_world_def)

text \<open>
  C9. \<^verbatim>\<open>getPairOrError\<close> never raises. It answers 400 and returns no pair exactly when
  \<^verbatim>\<open>langpair.split('|')\<close> does not have two parts (the string does not hold exactly one
  bar), or the pair of the converted codes is not a key of \<^verbatim>\<open>pairs\<close>; then only the
  status and the body of the response change. Otherwise it returns the pair of
  converted codes and changes nothing. After a refusal \<^verbatim>\<open>get\<close> returns at once: the
  pools are as before, and what \<^verbatim>\<open>makePipeline\<close>, \<^verbatim>\<open>parseModeFile\<close> or
  \<^verbatim>\<open>pipeline.translate\<close> would do makes no difference.
\<close>

theorem getPairOrError_spec:
  "(\<exists>r. fst (getPairOrError st w langpair n) = Inr r)
   \<and> length (split_on CHR ''|'' langpair) = Suc (count_list langpair CHR ''|'')
   \<and> (fst (getPairOrError st w langpair n) = Inr None \<longleftrightarrow>
        length (split_on CHR ''|'' langpair) \<noteq> 2
        \<or> (\<exists>c1 c2. split_on CHR ''|'' langpair = [c1, c2]
              \<and> pairs st (toAlpha3Code w c1 @ ''-'' @ toAlpha3Code w c2) = None))
   \<and> (fst (getPairOrError st w langpair n) = Inr None \<longrightarrow>
        (\<exists>explanation. snd (getPairOrError st w langpair n)
                          = st\<lparr>status := 400, sent := Some explanation\<rparr>))
   \<and> (\<forall>l1 l2. fst (getPairOrError st w langpair n) = Inr (Some (l1, l2)) \<longrightarrow>
        snd (getPairOrError st w langpair n) = st
        \<and> (\<exists>c1 c2. split_on CHR ''|'' langpair = [c1, c2]
              \<and> l1 = toAlpha3Code w c1 \<and> l2 = toAlpha3Code w c2)
        \<and> pairs st (l1 @ ''-'' @ l2) \<noteq> None)
   \<and> (arg_langpair req = Some langpair \<longrightarrow> arg_q req = Some q \<longrightarrow>
        fst (getPairOrError st w langpair (int (length q))) = Inr None \<longrightarrow>
          get st w req = (Inr (), snd (getPairOrError st w langpair (int (length q))))
          \<and> get st (w\<lparr>translate := t, makePipeline := mk, parseModeFile := ps, touch := f\<rparr>) req
              = get st w req)"
proof -
  let ?parts = "split_on CHR ''|'' langpair"
  let ?g = "getPairOrError st w langpair n"
  have abcd: "(\<exists>r. fst ?g = Inr r)
    \<and> (fst ?g = Inr None \<longleftrightarrow>
        length ?parts \<noteq> 2
        \<or> (\<exists>c1 c2. ?parts = [c1, c2]
              \<and> pairs st (toAlpha3Code w c1 @ ''-'' @ toAlpha3Code w c2) = None))
    \<and> (fst ?g = Inr None \<longrightarrow>
        (\<exists>explanation. snd ?g = st\<lparr>status := 400, sent := Some explanation\<rparr>))
    \<and> (\<forall>l1 l2. fst ?g = Inr (Some (l1, l2)) \<longrightarrow>
        snd ?g = st
        \<and> (\<exists>c1 c2. ?parts = [c1, c2]
              \<and> l1 = toAlpha3Code w c1 \<and> l2 = toAlpha3Code w c2)
        \<and> pairs st (l1 @ ''-'' @ l2) \<noteq> None)"
    (is "?A \<and> ?B \<and> ?C \<and> ?D")
    using gpe_shape[of langpair st w n]
  proof (elim disjE exE conjE)
    assume n2: "length ?parts \<noteq> 2"
      and g: "?g = (Inr None, st\<lparr>status := 400, sent := Some ''That pair is invalid, use e.g. eng|spa''\<rparr>)"
    have A: ?A by (simp only: g fst_conv) blast
    have B: ?B using n2 by (simp only: g fst_conv simp_thms)
    have C: ?C by (simp only: g fst_conv snd_conv) blast
    have D: ?D by (simp only: g fst_conv) simp
    from A B C D show ?thesis by (intro conjI)
  next
    fix c1 c2
    assume p: "?parts = [c1, c2]"
      and u: "pairs st (toAlpha3Code w c1 @ ''-'' @ toAlpha3Code w c2) = None"
      and g: "?g = (Inr None, st\<lparr>status := 400, sent := Some ''That pair is not installed''\<rparr>)"
    have A: ?A by (simp only: g fst_conv) blast
    have B: ?B using p u by (simp only: g fst_conv simp_thms) blast
    have C: ?C by (simp only: g fst_conv snd_conv) blast
    have D: ?D by (simp only: g fst_conv) simp
    from A B C D show ?thesis by (intro conjI)
  next
    fix c1 c2
    assume p: "?parts = [c1, c2]"
      and u: "pairs st (toAlpha3Code w c1 @ ''-'' @ toAlpha3Code w c2) \<noteq> None"
      and g: "?g = (Inr (Some (toAlpha3Code w c1, toAlpha3Code w c2)), st)"
    have A: ?A by (simp only: g fst_conv) blast
    have B: ?B using p u by (simp add: g)
    have C: ?C by (simp add: g)
    have D: ?D using p u by (simp add: g)
    from A B C D show ?thesis by (intro conjI)
  qed
  have e: "arg_langpair req = Some langpair \<longrightarrow> arg_q req = Some q \<longrightarrow>
        fst (getPairOrError st w langpair (int (length q))) = Inr None \<longrightarrow>
          get st w req = (Inr (), snd (getPairOrError st w langpair (int (length q))))
          \<and> get st (w\<lparr>translate := t, makePipeline := mk, parseModeFile := ps, touch := f\<rparr>) req
              = get st w req"
  proof (intro impI)
    let ?w = "w\<lparr>translate := t, makePipeline := mk, parseModeFile := ps, touch := f\<rparr>"
    assume l: "arg_langpair req = Some langpair" and q: "arg_q req = Some q"
      and r: "fst (getPairOrError st w langpair (int (length q))) = Inr None"
    have r': "fst (getPairOrError st ?w langpair (int (length q))) = Inr None"
      using r by (simp only: getPairOrError_world)
    have g: "get st w req = (Inr (), snd (getPairOrError st w langpair (int (length q))))"
      by (rule get_refused[OF l q r])
    have g': "get st ?w req = (Inr (), snd (getPairOrError st w langpair (int (length q))))"
      using get_refused[OF l q r'] by (simp only: getPairOrError_world)
    show "get st w req = (Inr (), snd (getPairOrError st w langpair (int (length q))))
          \<and> get st ?w req = get st w req"
      using g g' by (simp only: simp_thms)
  qed
  from abcd have a: ?A by (elim conjE)
  from abcd have b: ?B by (elim conjE)
  from abcd have c: ?C by (elim conjE)
  from abcd have d: ?D by (elim conjE)
  have l: "length ?parts = Suc (count_list langpair CHR ''|'')" by (rule length_split_on)
  show ?thesis by (intro conjI a l b c d e)
qed

theorem getPairOrError_spec_witness:
  "length (split_on CHR ''|'' ''eng'') \<noteq> 2
   \<and> fst (getPairOrError server_ex echo_world ''eng'' 5) = Inr None
   \<and> status (snd (getPairOrError server_ex echo_world ''eng'' 5)) = 400
   \<and> pipelines (snd (getPairOrError server_ex echo_world ''eng'' 5)) = pipelines server_ex
   \<and> arg_langpair bad_request_ex = Some ''eng'' \<and> arg_q bad_request_ex = Some ''hello''
   \<and> get server_ex echo_world bad_request_ex
       = (Inr (), snd (getPairOrError server_ex echo_world ''eng'' 5))
   \<and> fst (getPairOrError server_ex echo_world ''eng|spa'' 5) = Inr (Some (''eng'', ''spa''))
   \<and> snd (getPairOrError server_ex echo_world ''eng|spa'' 5) = server_ex"
proof -
  have n: "length (split_on CHR ''|'' ''eng'') \<noteq> 2" by (simp add: split_on_no_sep)
  have l: "arg_langpair bad_request_ex = Some ''eng''" and q: "arg_q bad_request_ex = Some ''hello''"
    by (simp_all add: bad_request_ex_def)
  note spec = getPairOrError_spec[of server_ex echo_world "''eng''" 5 bad_request_ex "''hello''"]
  from spec n have r: "fst (getPairOrError server_ex echo_world ''eng'' 5) = Inr None" by blast
  from spec r obtain explanation where
    s: "snd (getPairOrError server_ex echo_world ''eng'' 5)
          = server_ex\<lparr>status := 400, sent := Some explanation\<rparr>" by blast
  have r5: "fst (getPairOrError server_ex echo_world ''eng'' (int (length ''hello''))) = Inr None"
    using r by simp
  from spec l q r5 have g: "get server_ex echo_world bad_request_ex
       = (Inr (), snd (getPairOrError server_ex echo_world ''eng'' 5))" by simp
  have o: "getPairOrError server_ex echo_world ''eng|spa'' 5 = (Inr (Some (''eng'', ''spa'')), server_ex)"
    using ex_pair[of echo_world 5] by (simp add: ex_worlds eng_spa_def)
  from n r s l q g o show ?thesis by simp
qed

subsection \<open>Counting the use of a pair\<close>

text \<open>
  C2, as the code has it. A request to \<^verbatim>\<open>/translate\<close> that passes \<^verbatim>\<open>getPairOrError\<close> and
  gets its pipeline adds exactly 1 to \<^verbatim>\<open>useCount[pair]\<close> and changes no other count,
  whether \<^verbatim>\<open>pipeline.translate\<close> then succeeds or raises: \<^verbatim>\<open>translateAndRespond\<close>
  counts before it translates. A request that is refused, that lacks an argument or
  whose pipeline cannot be started leaves every count as it is.
\<close>

theorem get_useCount:
  "(arg_langpair req = Some langpair \<longrightarrow> arg_q req = Some q \<longrightarrow>
     stats_useCount (snd (get st w req)) =
       (case fst (getPairOrError st w langpair (int (length q))) of
          Inr (Some pair) \<Rightarrow>
            (case fst (getPipeline (pipeline_lt w) st pair (parseModeFile w) (makePipeline w)) of
               Inr pl \<Rightarrow> (stats_useCount st)
                  (pair \<mapsto> 1 + (case stats_useCount st pair of None \<Rightarrow> 0 | Some c \<Rightarrow> c))
             | Inl e \<Rightarrow> stats_useCount st)
        | _ \<Rightarrow> stats_useCount st))
   \<and> (arg_langpair req = None \<or> arg_q req = None \<longrightarrow> snd (get st w req) = st)
   \<and> stats_useCount (snd (translateAndRespond st w pair p q mu))
       = (stats_useCount st)
           (pair \<mapsto> 1 + (case stats_useCount st pair of None \<Rightarrow> 0 | Some c \<Rightarrow> c))"
proof (intro conjI impI)
  assume l: "arg_langpair req = Some langpair" and q: "arg_q req = Some q"
  show "stats_useCount (snd (get st w req)) =
       (case fst (getPairOrError st w langpair (int (length q))) of
          Inr (Some pair) \<Rightarrow>
            (case fst (getPipeline (pipeline_lt w) st pair (parseModeFile w) (makePipeline w)) of
               Inr pl \<Rightarrow> (stats_useCount st)
                  (pair \<mapsto> 1 + (case stats_useCount st pair of None \<Rightarrow> 0 | Some c \<Rightarrow> c))
             | Inl e \<Rightarrow> stats_useCount st)
        | _ \<Rightarrow> stats_useCount st)"
    using get_useCount_eq[OF l q, of st w]
    by (simp add: notePairUsage_def cong: sum.case_cong option.case_cong)
next
  assume "arg_langpair req = None \<or> arg_q req = None"
  then show "snd (get st w req) = st"
    by (auto simp: get_def split: option.splits)
next
  show "stats_useCount (snd (translateAndRespond st w pair p q mu))
       = (stats_useCount st)
           (pair \<mapsto> 1 + (case stats_useCount st pair of None \<Rightarrow> 0 | Some c \<Rightarrow> c))"
    by (simp add: translateAndRespond_useCount notePairUsage_def)
qed

theorem get_useCount_witness:
  "arg_langpair request_ex = Some ''eng|spa'' \<and> arg_q request_ex = Some ''*foo bar''
   \<and> stats_useCount server_ex = Map.empty
   \<and> stats_useCount (snd (get server_ex echo_world request_ex)) = [eng_spa \<mapsto> 1]"
proof -
  have l: "arg_langpair request_ex = Some ''eng|spa''" and q: "arg_q request_ex = Some ''*foo bar''"
    by (simp_all add: request_ex_def)
  have u: "stats_useCount server_ex = Map.empty" by (simp add: server_ex_def initial_def)
  have gp: "fst (getPairOrError server_ex echo_world ''eng|spa'' (int (length ''*foo bar'')))
              = Inr (Some eng_spa)"
    by (simp add: ex_pair ex_worlds)
  have pp: "fst (getPipeline (pipeline_lt echo_world) server_ex eng_spa (parseModeFile echo_world)
                   (makePipeline echo_world)) = Inr (pipe 1 0 0 0)"
    by (simp only: ex_worlds ex_pipe)
  from get_useCount[of request_ex "''eng|spa''" "''*foo bar''" server_ex echo_world] l q
  have "stats_useCount (snd (get server_ex echo_world request_ex)) =
       (case fst (getPairOrError server_ex echo_world ''eng|spa'' (int (length ''*foo bar''))) of
          Inr (Some pair) \<Rightarrow>
            (case fst (getPipeline (pipeline_lt echo_world) server_ex pair (parseModeFile echo_world)
                         (makePipeline echo_world)) of
               Inr pl \<Rightarrow> (stats_useCount server_ex)
                  (pair \<mapsto> 1 + (case stats_useCount server_ex pair of None \<Rightarrow> 0 | Some c \<Rightarrow> c))
             | Inl e \<Rightarrow> stats_useCount server_ex)
        | _ \<Rightarrow> stats_useCount server_ex)"
    by blast
  then have "stats_useCount (snd (get server_ex echo_world request_ex)) = [eng_spa \<mapsto> 1]"
    by (simp only: gp pp sum.case option.case u) simp
  with l q u show ?thesis by blast
qed

text \<open>
  A request whose translation fails: the exception leaves \<^verbatim>\<open>get\<close>, and the pair has
  been counted.
\<close>

theorem get_useCount_counterexample:
  "fst (get server_ex broken_world request_ex) = Inl (Raised ''translation failed'')
   \<and> stats_useCount server_ex eng_spa = None
   \<and> stats_useCount (snd (get server_ex broken_world request_ex)) eng_spa = Some 1"
proof -
  have l: "arg_langpair request_ex = Some ''eng|spa''" and q: "arg_q request_ex = Some ''*foo bar''"
    by (simp_all add: request_ex_def)
  have u: "stats_useCount server_ex = Map.empty" by (simp add: server_ex_def initial_def)
  obtain st2 where g: "getPipeline users_lt server_ex eng_spa (\<lambda>path. Inr ()) (\<lambda>cmds. Inr (pipe 1 0 0 0))
                         = (Inr (pipe 1 0 0 0), st2)"
    using ex_pipe by (cases "getPipeline users_lt server_ex eng_spa (\<lambda>path. Inr ()) (\<lambda>cmds. Inr (pipe 1 0 0 0))") simp
  have f: "fst (get server_ex broken_world request_ex) = Inl (Raised ''translation failed'')"
  proof -
    have m: "arg_markUnknown request_ex = Some ''no''" by (simp add: request_ex_def)
    have "get server_ex broken_world request_ex
            = translateAndRespond st2 broken_world eng_spa (pipe 1 0 0 0) ''*foo bar'' ''no''"
      unfolding get_def
      by (simp only: l q m option.case ex_pair[OF ex_worlds(2)] prod.case sum.case ex_worlds g)
    then show ?thesis
      by (simp add: translateAndRespond_def Let_def broken_world_def)
  qed
  have c: "stats_useCount (snd (get server_ex broken_world request_ex)) eng_spa = Some 1"
  proof -
    have gp: "fst (getPairOrError server_ex broken_world ''eng|spa'' (int (length ''*foo bar'')))
                = Inr (Some eng_spa)"
      by (simp add: ex_pair ex_worlds)
    have pp: "fst (getPipeline (pipeline_lt broken_world) server_ex eng_spa (parseModeFile broken_world)
                     (makePipeline broken_world)) = Inr (pipe 1 0 0 0)"
      by (simp only: ex_worlds ex_pipe)
    from get_useCount_eq[OF l q, of server_ex broken_world]
    have "stats_useCount (snd (get server_ex broken_world request_ex))
            = stats_useCount (notePairUsage server_ex eng_spa)"
      by (simp only: gp pp sum.case option.case)
    then show ?thesis by (simp add: notePairUsage_def u)
  qed
  from f u c show ?thesis by simp
qed

end
